theory Spec2Isabelle
  imports Main
begin

section \<open>The CollapsibleColumns plugin (src/plugins/collapsibleColumns/collapsibleColumns.js)\<close>

subsection \<open>Data model\<close>

text \<open>
  The values the plugin stores in \<^verbatim>\<open>this.collapsedSections[row][col]\<close>: the code writes
  \<^verbatim>\<open>true\<close> and \<^verbatim>\<open>void 0\<close>; the indicator compares with \<^verbatim>\<open>=== true\<close>.
\<close>

datatype jsval = JUndefined | JBool bool

text \<open>
  \<^verbatim>\<open>this.collapsedSections\<close>: an object keyed by the header row (a negative grid row), each
  entry an array keyed by the nested column index. A key that was never written is absent
  (\<open>None\<close>); a key written with \<^verbatim>\<open>void 0\<close> is present and holds \<open>JUndefined\<close>.
\<close>

type_synonym sections = "int \<rightharpoonup> (int \<rightharpoonup> jsval)"

datatype error = TypeError

text \<open>The two strings passed as \<^verbatim>\<open>state\<close> to markSectionAs, and as \<^verbatim>\<open>action\<close> to
  toggleCollapsedSection.\<close>

datatype section_state = Collapsed | Expanded

datatype action = Collapse | Expand

text \<open>
  The hiddenColumns setting, read through \<^verbatim>\<open>this.hiddenColumnsPlugin.settings\<close> and written
  through \<^verbatim>\<open>this.hot.getSettings().hiddenColumns\<close> with updateSettings: absent, \<^verbatim>\<open>true\<close>, or
  an object whose \<^verbatim>\<open>columns\<close> is absent or an array of real column indices. The
  HiddenColumns plugin is not part of the plugin's source; its settings are taken to be the grid's
  hiddenColumns setting.
\<close>

datatype hidden_setting = HiddenUndefined | HiddenTrue | HiddenObject "int list option"

text \<open>
  What the plugin reads from its collaborators and never writes:
  \<^item> \<open>columnHeaderLevelCount\<close>: set in onAfterInit from the columnHeaders setting;
  \<^item> \<open>colspanSettings\<close>: \<^verbatim>\<open>nestedHeaders.colspan\<close>, an array (one entry per header level, top
    level first) of arrays of colspans; an absent level or position is an index out of range.
    markSectionAs reads it from the grid's settings and getChildHeaders from the NestedHeaders
    plugin's settings: one table;
  \<^item> \<open>nestedColumnIndexToRealIndex\<close>, \<open>realColumnIndexToNestedIndex\<close>: the NestedHeaders plugin's
    translations (row, index), not part of the plugin's source, hence parameters;
  \<^item> \<open>getColspanOffset\<close>: \<^verbatim>\<open>this.hot.getColspanOffset(col, headerLevel)\<close>, a parameter as well;
  \<^item> \<open>theadRows\<close>: the number of child nodes of the rendered THEAD.
\<close>

record env =
  columnHeaderLevelCount :: int
  colspanSettings :: "int list list"
  nestedColumnIndexToRealIndex :: "int \<Rightarrow> int \<Rightarrow> int"
  realColumnIndexToNestedIndex :: "int \<Rightarrow> int \<Rightarrow> int"
  getColspanOffset :: "int \<Rightarrow> int \<Rightarrow> int"
  theadRows :: int

record state =
  collapsedSections :: sections
  hiddenColumns :: hidden_setting

text \<open>A JavaScript array read \<^verbatim>\<open>xs[i]\<close>: \<^verbatim>\<open>undefined\<close> (\<open>None\<close>) out of range.\<close>

definition js_index :: "'a list \<Rightarrow> int \<Rightarrow> 'a option" where
  "js_index xs i = (if 0 \<le> i \<and> i < int (length xs) then Some (xs ! nat i) else None)"

text \<open>\<^verbatim>\<open>colspans[k] && colspans[k][i]\<close>: the colspan at level index \<open>k\<close> (from the top),
  position \<open>i\<close>.\<close>

definition colspanAt :: "env \<Rightarrow> int \<Rightarrow> int \<Rightarrow> int option" where
  "colspanAt e k i =
     (case js_index (colspanSettings e) k of
        None \<Rightarrow> None
      | Some lv \<Rightarrow> js_index lv i)"

text \<open>\<^verbatim>\<open>colspans[k] && colspans[k][i] > 1\<close> (lines 171 and 269).\<close>

definition spansMany :: "env \<Rightarrow> int \<Rightarrow> int \<Rightarrow> bool" where
  "spansMany e k i = (case colspanAt e k i of None \<Rightarrow> False | Some c \<Rightarrow> 1 < c)"

subsection \<open>getChildHeaders (lines 257-281)\<close>

text \<open>
  The loop of lines 267-278. \<open>start\<close> is childNestedColumnIndex, \<open>n\<close> the current value of
  the mutable \<^verbatim>\<open>colspan\<close>, \<open>acc\<close> is childHeaderRange.
\<close>

function childHeadersLoop :: "env \<Rightarrow> int \<Rightarrow> int \<Rightarrow> int \<Rightarrow> int \<Rightarrow> int list \<Rightarrow> int list" where
  "childHeadersLoop e row start i n acc =
     (if i < start + n then
        let n' = (case colspanAt e (columnHeaderLevelCount e + row + 1) i of
                    None \<Rightarrow> n
                  | Some c \<Rightarrow> if 1 < c then n - c else n);
            realChildIndex = nestedColumnIndexToRealIndex e (row + 1) i;
            acc' = (if realChildIndex \<in> set acc then acc else acc @ [realChildIndex])
        in childHeadersLoop e row start (i + 1) n' acc'
      else acc)"
  by pat_completeness auto
termination
  by (relation "measure (\<lambda>(e, row, start, i, n, acc). nat (start + n - i))")
     (auto split: option.splits)

declare childHeadersLoop.simps [simp del]

text \<open>
  The colspan argument is \<open>None\<close> when the caller passes \<^verbatim>\<open>undefined\<close> (markSectionAs reads
  it from the colspan table): the loop test compares with NaN and the loop does not run.
\<close>

definition getChildHeaders :: "env \<Rightarrow> int \<Rightarrow> int \<Rightarrow> int option \<Rightarrow> int list" where
  "getChildHeaders e row col colspan_arg =
     (case colspan_arg of
        None \<Rightarrow> []
      | Some n \<Rightarrow>
          let realColumnIndex = nestedColumnIndexToRealIndex e row col;
              childNestedColumnIndex = realColumnIndexToNestedIndex e (row + 1) realColumnIndex
          in childHeadersLoop e row childNestedColumnIndex childNestedColumnIndex n [])"

subsection \<open>markSectionAs (lines 147-178)\<close>

text \<open>Lines 148-161: create the row's array when it is missing, then store \<^verbatim>\<open>true\<close> for
  'collapsed' and \<^verbatim>\<open>void 0\<close> for 'expanded' at \<^verbatim>\<open>[row][col]\<close>.\<close>

definition markValue :: "section_state \<Rightarrow> jsval" where
  "markValue st = (case st of Collapsed \<Rightarrow> JBool True | Expanded \<Rightarrow> JUndefined)"

definition setSection :: "int \<Rightarrow> int \<Rightarrow> jsval \<Rightarrow> sections \<Rightarrow> sections" where
  "setSection row col v cs =
     cs(row \<mapsto> (case cs row of None \<Rightarrow> Map.empty | Some r \<Rightarrow> r)(col \<mapsto> v))"

text \<open>\<^verbatim>\<open>THEAD.childNodes[k]\<close> is an element, not \<^verbatim>\<open>undefined\<close>.\<close>

definition theadHasRow :: "env \<Rightarrow> int \<Rightarrow> bool" where
  "theadHasRow e k = (0 \<le> k \<and> k < theadRows e)"

text \<open>
  The store is mutated in place, so a call that throws leaves its writes behind: every
  operation returns the store together with the error raised, if any.

  \<open>markSectionAs\<close> is the method; \<open>markChildren\<close> is its loop of lines 168-176 over
  \<^verbatim>\<open>childHeaders[1..]\<close>. Reading \<^verbatim>\<open>nestedHeadersColspans[reversedIndex][col]\<close> (line 166)
  throws when the level is missing; so does reading
  \<^verbatim>\<open>THEAD.childNodes[reversedIndex + 1].childNodes[nestedIndex]\<close> (line 172) when the THEAD has
  no such row. The parameter TH is never read and is left out.
\<close>

function markSectionAs ::
    "env \<Rightarrow> section_state \<Rightarrow> int \<Rightarrow> int \<Rightarrow> bool \<Rightarrow> sections \<Rightarrow> sections \<times> error option"
  and markChildren ::
    "env \<Rightarrow> section_state \<Rightarrow> int \<Rightarrow> int list \<Rightarrow> sections \<Rightarrow> sections \<times> error option"
where
  "markSectionAs e st row col recursive cs =
     (let cs1 = setSection row col (markValue st) cs in
      if recursive then
        (case js_index (colspanSettings e) (columnHeaderLevelCount e + row) of
           None \<Rightarrow> (cs1, Some TypeError)
         | Some lv \<Rightarrow>
             markChildren e st row (tl (getChildHeaders e row col (js_index lv col))) cs1)
      else (cs1, None))"
| "markChildren e st row [] cs = (cs, None)"
| "markChildren e st row (child # rest) cs =
     (let nestedIndex = realColumnIndexToNestedIndex e (row + 1) child in
      if spansMany e (columnHeaderLevelCount e + row + 1) nestedIndex then
        if theadHasRow e (columnHeaderLevelCount e + row + 1) then
          (case markSectionAs e st (row + 1) nestedIndex True cs of
             (cs', Some err) \<Rightarrow> (cs', Some err)
           | (cs', None) \<Rightarrow> markChildren e st row rest cs')
        else (cs, Some TypeError)
      else markChildren e st row rest cs)"
  by pat_completeness auto

text \<open>The recursion goes one level down each time and only into a level the colspan table has.\<close>

definition levelsBelow :: "env \<Rightarrow> int \<Rightarrow> nat" where
  "levelsBelow e row = nat (int (length (colspanSettings e)) - (columnHeaderLevelCount e + row))"

lemma spansMany_level:
  assumes "spansMany e k i"
  shows "0 \<le> k \<and> k < int (length (colspanSettings e))"
  using assms
  by (auto simp: spansMany_def colspanAt_def js_index_def split: option.splits if_splits)

lemma levelsBelow_step:
  assumes "spansMany e (columnHeaderLevelCount e + row + 1) i"
  shows "levelsBelow e row = Suc (levelsBelow e (row + 1))"
  using spansMany_level [OF assms] unfolding levelsBelow_def by linarith

termination markSectionAs
proof (relation "inv_image (less_than <*lex*> less_than)
    (\<lambda>x. case x of
         Inl (e, st, row, col, recursive, cs) \<Rightarrow> (2 * levelsBelow e row + 1, 0)
       | Inr (e, st, row, children, cs) \<Rightarrow> (2 * levelsBelow e row, length children))",
    goal_cases)
  case 1
  show ?case by (intro wf_inv_image wf_lex_prod wf_less_than)
next
  case (2 e st row col recursive cs x1 x2)
  show ?case by simp
next
  case (3 e st row child rest cs x)
  then show ?case by (simp add: levelsBelow_step)
next
  case (4 e st row child rest cs x xa y)
  show ?case by simp
next
  case (5 e st row child rest cs x)
  show ?case by simp
qed

declare markSectionAs.simps [simp del] markChildren.simps [simp del]

subsection \<open>Header cells and the indicator (lines 77-104)\<close>

text \<open>
  What the plugin reads of a header cell (TH, or the TD of a mouse event): its colspan
  attribute, \<open>None\<close> when the attribute is missing, and the index of its row among the
  child nodes of the THEAD.
\<close>

record header_cell =
  colspanAttr :: "int option"
  rowIndex :: int

text \<open>The indicator element: class 'collapsed' with text '+', or class 'expanded' with
  text '-'.\<close>

datatype indicator = IndicatorCollapsed | IndicatorExpanded

text \<open>The test of line 83:
  \<^verbatim>\<open>this.collapsedSections[row] && this.collapsedSections[row][col] === true\<close>.\<close>

definition isCollapsed :: "sections \<Rightarrow> int \<Rightarrow> int \<Rightarrow> bool" where
  "isCollapsed cs row col =
     (case cs row of
        None \<Rightarrow> False
      | Some r \<Rightarrow> r col = Some (JBool True))"

text \<open>Line 79: the (negative) grid row of the header cell, from its position in the THEAD.\<close>

definition generateIndicator :: "env \<Rightarrow> int \<Rightarrow> header_cell \<Rightarrow> sections \<Rightarrow> indicator" where
  "generateIndicator e col th cs =
     (let row = (- 1) * theadRows e + rowIndex th in
      if isCollapsed cs row col then IndicatorCollapsed else IndicatorExpanded)"

text \<open>onAfterGetColHeader: the indicator appended to the header cell, if any.\<close>

definition onAfterGetColHeader :: "env \<Rightarrow> int \<Rightarrow> header_cell \<Rightarrow> sections \<Rightarrow> indicator option" where
  "onAfterGetColHeader e col th cs =
     (case colspanAttr th of
        None \<Rightarrow> None
      | Some n \<Rightarrow> if 1 < n then Some (generateIndicator e col th cs) else None)"

subsection \<open>toggleCollapsedSection (lines 187-247)\<close>

text \<open>Lines 195-199: the list of hidden columns that is read.\<close>

definition currentlyHiddenColumns :: "hidden_setting \<Rightarrow> int list" where
  "currentlyHiddenColumns hs =
     (case hs of
        HiddenObject (Some columns) \<Rightarrow> columns
      | _ \<Rightarrow> [])"

text \<open>Lines 206-211.\<close>

definition firstElementColspan :: "env \<Rightarrow> int \<Rightarrow> int \<Rightarrow> int \<Rightarrow> int" where
  "firstElementColspan e row col headerColspan =
     (case getChildHeaders e row col (Some headerColspan) of
        c0 # c1 # _ \<Rightarrow> if c1 \<noteq> 0 then c1 - c0 else 1
      | _ \<Rightarrow> 1)"

text \<open>The loop of lines 213-219; \<open>base\<close> is \<^verbatim>\<open>coords.col + colspanOffset\<close>, \<open>hidden\<close> the list
  read, \<open>columnArray\<close> its clone being extended.\<close>

function hideLoop :: "int \<Rightarrow> int \<Rightarrow> int \<Rightarrow> int list \<Rightarrow> int list \<Rightarrow> int list" where
  "hideLoop i n base hidden columnArray =
     (if i < n then
        let colToHide = base + i in
        hideLoop (i + 1) n base hidden
          (if colToHide \<in> set hidden then columnArray else columnArray @ [colToHide])
      else columnArray)"
  by pat_completeness auto
termination
  by (relation "measure (\<lambda>(i, n, base, hidden, columnArray). nat (n - i))") auto

declare hideLoop.simps [simp del]

text \<open>The loop of lines 224-231: indexOf and splice remove the first occurrence.\<close>

function showLoop :: "int \<Rightarrow> int \<Rightarrow> int \<Rightarrow> int list \<Rightarrow> int list" where
  "showLoop i n base columnArray =
     (if i < n then
        let colToHide = base + i in
        showLoop (i + 1) n base (remove1 colToHide columnArray)
      else columnArray)"
  by pat_completeness auto
termination
  by (relation "measure (\<lambda>(i, n, base, columnArray). nat (n - i))") auto

declare showLoop.simps [simp del]

text \<open>
  Reading \<^verbatim>\<open>.columns\<close> of an absent setting throws (line 195). A colspan attribute that does
  not parse gives NaN: no loop runs and the list is written back as it was read. The
  setting written has \<^verbatim>\<open>columns\<close> replaced and its other fields untouched.
\<close>

definition toggleCollapsedSection ::
    "env \<Rightarrow> int \<Rightarrow> int \<Rightarrow> header_cell \<Rightarrow> action \<Rightarrow> hidden_setting \<Rightarrow> hidden_setting \<times> error option" where
  "toggleCollapsedSection e row col td act hs =
     (case hs of
        HiddenUndefined \<Rightarrow> (hs, Some TypeError)
      | _ \<Rightarrow>
          let headerLevel = theadRows e - rowIndex td - 1;
              colspanOffset = getColspanOffset e col headerLevel;
              hidden = currentlyHiddenColumns hs;
              columnArray =
                (case colspanAttr td of
                   None \<Rightarrow> hidden
                 | Some headerColspan \<Rightarrow>
                     (case act of
                        Collapse \<Rightarrow>
                          hideLoop (firstElementColspan e row col headerColspan) headerColspan
                            (col + colspanOffset) hidden hidden
                      | Expand \<Rightarrow> showLoop 1 headerColspan (col + colspanOffset) hidden))
          in (HiddenObject (Some columnArray), None))"

subsection \<open>The first immediate child\<close>

text \<open>The nested position, at the child level, from which getChildHeaders starts its walk
  (lines 262-264): the position of the section's first immediate child.\<close>

definition firstChildPosition :: "env \<Rightarrow> int \<Rightarrow> int \<Rightarrow> int" where
  "firstChildPosition e row col =
     realColumnIndexToNestedIndex e (row + 1) (nestedColumnIndexToRealIndex e row col)"

text \<open>The colspan of the section's first immediate child, in the words of the
  specification: what the colspan table records for that position at the child level; a
  position without a record spans one column.\<close>

definition firstChildColspan :: "env \<Rightarrow> int \<Rightarrow> int \<Rightarrow> int" where
  "firstChildColspan e row col =
     (case colspanAt e (columnHeaderLevelCount e + row + 1) (firstChildPosition e row col) of
        None \<Rightarrow> 1
      | Some c \<Rightarrow> c)"

subsection \<open>onBeforeOnCellMouseDown (lines 113-136)\<close>

datatype event_target = OtherElement | IndicatorElement indicator

record mouse_event =
  target :: event_target
  coords_row :: int
  coords_col :: int
  eventTD :: header_cell

text \<open>Mark, then toggle; an error in the marking skips the toggle.\<close>

definition markAndToggle :: "env \<Rightarrow> section_state \<Rightarrow> action \<Rightarrow> mouse_event \<Rightarrow> state \<Rightarrow> state \<times> error option" where
  "markAndToggle e st act ev s =
     (case markSectionAs e st (coords_row ev) (coords_col ev) True (collapsedSections s) of
        (cs, Some err) \<Rightarrow> (s\<lparr>collapsedSections := cs\<rparr>, Some err)
      | (cs, None) \<Rightarrow>
          (case toggleCollapsedSection e (coords_row ev) (coords_col ev) (eventTD ev) act
                  (hiddenColumns s) of
             (hs, err) \<Rightarrow> (\<lparr>collapsedSections = cs, hiddenColumns = hs\<rparr>, err)))"

definition onBeforeOnCellMouseDown :: "env \<Rightarrow> mouse_event \<Rightarrow> state \<Rightarrow> state \<times> error option" where
  "onBeforeOnCellMouseDown e ev s =
     (case target ev of
        OtherElement \<Rightarrow> (s, None)
      | IndicatorElement IndicatorExpanded \<Rightarrow>
          (let cs0 = (case collapsedSections s (coords_row ev) of
                        None \<Rightarrow> (collapsedSections s)(coords_row ev \<mapsto> Map.empty)
                      | Some r \<Rightarrow> collapsedSections s)
           in markAndToggle e Collapsed Collapse ev (s\<lparr>collapsedSections := cs0\<rparr>))
      | IndicatorElement IndicatorCollapsed \<Rightarrow> markAndToggle e Expanded Expand ev s)"

text \<open>The collapse and the expand transition of a section: a click on its indicator while
  it shows 'expanded', respectively 'collapsed'.\<close>

definition collapse :: "env \<Rightarrow> int \<Rightarrow> int \<Rightarrow> header_cell \<Rightarrow> state \<Rightarrow> state \<times> error option" where
  "collapse e row col td s =
     onBeforeOnCellMouseDown e
       \<lparr>target = IndicatorElement IndicatorExpanded, coords_row = row, coords_col = col, eventTD = td\<rparr> s"

definition expand :: "env \<Rightarrow> int \<Rightarrow> int \<Rightarrow> header_cell \<Rightarrow> state \<Rightarrow> state \<times> error option" where
  "expand e row col td s =
     onBeforeOnCellMouseDown e
       \<lparr>target = IndicatorElement IndicatorCollapsed, coords_row = row, coords_col = col, eventTD = td\<rparr> s"

subsection \<open>A Header Span Index for concrete headers\<close>

text \<open>
  Modelled from the spec: the NestedHeaders plugin's nestedColumnIndexToRealIndex and
  realColumnIndexToNestedIndex and the grid's getColspanOffset are not in the plugin's source. The
  spec's data model: at a level, the nested position counts header cells, and a position
  with colspan > 1 owns the next colspan - 1 real columns, which have no entry of their own
  at that level. So the real index of a nested position is the sum of the colspans before
  it; positions beyond the recorded ones span one column each.
\<close>

fun realOfNested :: "int list \<Rightarrow> nat \<Rightarrow> int" where
  "realOfNested lv 0 = 0"
| "realOfNested [] (Suc i) = 1 + realOfNested [] i"
| "realOfNested (c # lv) (Suc i) = c + realOfNested lv i"

text \<open>Modelled from the spec: realColumnIndexToNestedIndex, the nested position of the header
  cell that covers a real column.\<close>

fun nestedOfReal :: "int list \<Rightarrow> int \<Rightarrow> int" where
  "nestedOfReal [] r = r"
| "nestedOfReal (c # lv) r = (if r < c then 0 else 1 + nestedOfReal lv (r - c))"

text \<open>Modelled from the spec: the Header Span Index of a colspan table, with one THEAD row
  per level. The colspan offset of a nested position is its real index minus the position;
  the header level of getColspanOffset counts from the lowest header row.\<close>

definition levelColspans :: "int \<Rightarrow> int list list \<Rightarrow> int \<Rightarrow> int list" where
  "levelColspans levelCount colspans row =
     (case js_index colspans (levelCount + row) of None \<Rightarrow> [] | Some lv \<Rightarrow> lv)"

definition headerEnv :: "int list list \<Rightarrow> env" where
  "headerEnv colspans =
     (let levelCount = int (length colspans) in
      \<lparr>columnHeaderLevelCount = levelCount,
       colspanSettings = colspans,
       nestedColumnIndexToRealIndex =
         (\<lambda>row col. if col < 0 then col
                     else realOfNested (levelColspans levelCount colspans row) (nat col)),
       realColumnIndexToNestedIndex =
         (\<lambda>row r. if r < 0 then r else nestedOfReal (levelColspans levelCount colspans row) r),
       getColspanOffset =
         (\<lambda>col headerLevel. if col < 0 then 0
            else realOfNested (levelColspans levelCount colspans (- 1 - headerLevel)) (nat col) - col),
       theadRows = levelCount\<rparr>)"

text \<open>The header of the cascade scenario: level 0 is one cell over real columns 0..3;
  level 1 has cells at real columns 0 and 1 and one cell over real columns 2..3.\<close>

definition cascadeEnv :: env where
  "cascadeEnv = headerEnv [[4], [1, 1, 2]]"

definition topCell :: header_cell where
  "topCell = \<lparr>colspanAttr = Some 4, rowIndex = 0\<rparr>"

definition emptyState :: state where
  "emptyState = \<lparr>collapsedSections = Map.empty, hiddenColumns = HiddenObject (Some [])\<rparr>"

text \<open>What the cascade scenario fixes of a header, whatever the translations are
  elsewhere: two levels, the colspans, the real indices of the level-0 cell and of the three
  level-1 cells and the nested positions of the latter, and no offset for column 0.\<close>

definition cascadeHeader :: "env \<Rightarrow> bool" where
  "cascadeHeader e =
     (columnHeaderLevelCount e = 2 \<and> theadRows e = 2 \<and>
      colspanSettings e = [[4], [1, 1, 2]] \<and>
      nestedColumnIndexToRealIndex e (- 2) 0 = 0 \<and>
      nestedColumnIndexToRealIndex e (- 1) 0 = 0 \<and>
      nestedColumnIndexToRealIndex e (- 1) 1 = 1 \<and>
      nestedColumnIndexToRealIndex e (- 1) 2 = 2 \<and>
      realColumnIndexToNestedIndex e (- 1) 0 = 0 \<and>
      realColumnIndexToNestedIndex e (- 1) 1 = 1 \<and>
      realColumnIndexToNestedIndex e (- 1) 2 = 2 \<and>
      getColspanOffset e 0 1 = 0)"

text \<open>A two-level header whose level-0 cell spans real columns 0..3 and whose level-1
  cells are a merged cell over real columns 0..1 followed by single cells at real columns 2
  and 3.\<close>

definition mergedFirstHeader :: "env \<Rightarrow> bool" where
  "mergedFirstHeader e =
     (columnHeaderLevelCount e = 2 \<and>
      colspanSettings e = [[4], [2, 1, 1]] \<and>
      nestedColumnIndexToRealIndex e (- 2) 0 = 0 \<and>
      nestedColumnIndexToRealIndex e (- 1) 0 = 0 \<and>
      nestedColumnIndexToRealIndex e (- 1) 1 = 2 \<and>
      nestedColumnIndexToRealIndex e (- 1) 2 = 3 \<and>
      realColumnIndexToNestedIndex e (- 1) 0 = 0)"

subsection \<open>Activation (lines 17-68)\<close>

text \<open>The settings the constructor and checkDependencies read: whether collapsibleColumns
  is set, the colspan table of nestedHeaders when that is configured, and the hiddenColumns
  setting.\<close>

record grid_settings =
  collapsibleColumnsSetting :: bool
  nestedHeadersSetting :: "int list list option"
  hiddenColumnsSetting :: hidden_setting

datatype hook = AfterInit | AfterGetColHeader | BeforeOnCellMouseDown

text \<open>The plugin as the grid sees it: the hooks it has bound and what it wrote to the
  console.\<close>

record plugin =
  boundHooks :: "hook list"
  console :: "string list"

text \<open>The constructor: nothing is bound when the collapsibleColumns setting is off
  (line 20); otherwise bindHooks (lines 56-60).\<close>

definition bindHooks :: "hook list" where
  "bindHooks = [AfterInit, AfterGetColHeader, BeforeOnCellMouseDown]"

definition construct :: "grid_settings \<Rightarrow> plugin" where
  "construct gs =
     (if \<not> collapsibleColumnsSetting gs then \<lparr>boundHooks = [], console = []\<rparr>
      else \<lparr>boundHooks = bindHooks, console = []\<rparr>)"

definition dependencyWarning :: string where
  "dependencyWarning =
     ''You need to configure the Nested Headers plugin in order to use collapsible headers.''"

text \<open>checkDependencies (lines 37-51): the warnings written and the value returned;
  \<open>None\<close> is \<^verbatim>\<open>undefined\<close>, returned when both settings are there.\<close>

definition checkDependencies :: "grid_settings \<Rightarrow> string list \<times> bool option" where
  "checkDependencies gs =
     (if nestedHeadersSetting gs = None then ([dependencyWarning], Some False)
      else if hiddenColumnsSetting gs = HiddenUndefined then ([dependencyWarning], Some False)
      else ([], None))"

text \<open>onAfterInit (lines 62-68) calls checkDependencies and drops its result; the three
  assignments that follow read the collaborators and change no hook.\<close>

definition onAfterInit :: "grid_settings \<Rightarrow> plugin \<Rightarrow> plugin" where
  "onAfterInit gs p = p\<lparr>console := console p @ fst (checkDependencies gs)\<rparr>"

text \<open>Activation: the constructor, then the grid fires afterInit on the plugins that bound
  it.\<close>

definition activate :: "grid_settings \<Rightarrow> plugin" where
  "activate gs =
     (let p = construct gs in
      if AfterInit \<in> set (boundHooks p) then onAfterInit gs p else p)"

text \<open>Rendering a header cell fires afterGetColHeader; the indicator the plugin appends.\<close>

definition renderHeaderCell :: "plugin \<Rightarrow> env \<Rightarrow> int \<Rightarrow> header_cell \<Rightarrow> sections \<Rightarrow> indicator option" where
  "renderHeaderCell p e col th cs =
     (if AfterGetColHeader \<in> set (boundHooks p) then onAfterGetColHeader e col th cs else None)"

subsection \<open>What the marking writes\<close>

text \<open>The entry stored at \<^verbatim>\<open>[row][col]\<close>: \<open>None\<close> when the row or the key is absent.\<close>

definition cellAt :: "sections \<Rightarrow> int \<Rightarrow> int \<Rightarrow> jsval option" where
  "cellAt cs row col = (case cs row of None \<Rightarrow> None | Some r \<Rightarrow> r col)"

text \<open>Writing one value at a list of keys, in order.\<close>

definition writeAll :: "jsval \<Rightarrow> (int \<times> int) list \<Rightarrow> sections \<Rightarrow> sections" where
  "writeAll v ks cs = fold (\<lambda>k. setSection (fst k) (snd k) v) ks cs"

text \<open>
  The keys (row, col) that \<open>markSectionAs\<close> and \<open>markChildren\<close> write, in order, and the
  error they end with: the same recursion without the store (lemma \<open>mark_refines\<close>).
\<close>

function markedSections :: "env \<Rightarrow> int \<Rightarrow> int \<Rightarrow> bool \<Rightarrow> (int \<times> int) list \<times> error option"
  and markedChildren :: "env \<Rightarrow> int \<Rightarrow> int list \<Rightarrow> (int \<times> int) list \<times> error option"
where
  "markedSections e row col recursive =
     (if recursive then
        (case js_index (colspanSettings e) (columnHeaderLevelCount e + row) of
           None \<Rightarrow> ([(row, col)], Some TypeError)
         | Some lv \<Rightarrow>
             (case markedChildren e row (tl (getChildHeaders e row col (js_index lv col))) of
                (ks, err) \<Rightarrow> ((row, col) # ks, err)))
      else ([(row, col)], None))"
| "markedChildren e row [] = ([], None)"
| "markedChildren e row (child # rest) =
     (let nestedIndex = realColumnIndexToNestedIndex e (row + 1) child in
      if spansMany e (columnHeaderLevelCount e + row + 1) nestedIndex then
        if theadHasRow e (columnHeaderLevelCount e + row + 1) then
          (case markedSections e (row + 1) nestedIndex True of
             (ks, Some err) \<Rightarrow> (ks, Some err)
           | (ks, None) \<Rightarrow>
               (case markedChildren e row rest of (ks', err) \<Rightarrow> (ks @ ks', err)))
        else ([], Some TypeError)
      else markedChildren e row rest)"
  by pat_completeness auto
termination markedSections
proof (relation "inv_image (less_than <*lex*> less_than)
    (\<lambda>x. case x of
         Inl (e, row, col, recursive) \<Rightarrow> (2 * levelsBelow e row + 1, 0)
       | Inr (e, row, children) \<Rightarrow> (2 * levelsBelow e row, length children))",
    goal_cases)
  case 1
  show ?case by (intro wf_inv_image wf_lex_prod wf_less_than)
next
  case 2
  show ?case by simp
next
  case 3
  then show ?case by (simp add: levelsBelow_step)
next
  case 4
  show ?case by simp
next
  case 5
  show ?case by simp
qed

declare markedSections.simps [simp del] markedChildren.simps [simp del]

subsection \<open>Reachable states\<close>

text \<open>The plugin starts with an empty \<^verbatim>\<open>collapsedSections\<close> (line 27) and whatever
  hiddenColumns setting the grid has; its state changes only in onBeforeOnCellMouseDown.\<close>

inductive reachable :: "env \<Rightarrow> state \<Rightarrow> bool" for e :: env where
  initial: "reachable e \<lparr>collapsedSections = Map.empty, hiddenColumns = hs\<rparr>"
| event: "reachable e s \<Longrightarrow> reachable e (fst (onBeforeOnCellMouseDown e ev s))"

text \<open>No entry of the store is \<^verbatim>\<open>false\<close>.\<close>

definition neverFalse :: "sections \<Rightarrow> bool" where
  "neverFalse cs = (\<forall>r c. cellAt cs r c \<noteq> Some (JBool False))"

subsection \<open>More concrete headers\<close>

text \<open>Two header rows, with colspan data for the top one only.\<close>

definition shortEnv :: env where
  "shortEnv = (headerEnv [[2, 2]])\<lparr>columnHeaderLevelCount := 2, theadRows := 2\<rparr>"

text \<open>Three header rows: a cell over real columns 0..3, below it a single cell over the
  same columns, below that four single-column cells.\<close>

definition singleChildEnv :: env where
  "singleChildEnv = headerEnv [[4], [4], [1, 1, 1, 1]]"

text \<open>Nothing collapsed, and real column 2 listed twice in the hiddenColumns setting.\<close>

definition duplicateState :: state where
  "duplicateState = \<lparr>collapsedSections = Map.empty, hiddenColumns = HiddenObject (Some [2, 2])\<rparr>"

text \<open>The merged level-1 cell of the cascade scenario, and the state after the user
  collapsed it: real column 3 hidden, the cell marked collapsed.\<close>

definition mergedCell :: header_cell where
  "mergedCell = \<lparr>colspanAttr = Some 2, rowIndex = 1\<rparr>"

definition childCollapsedState :: state where
  "childCollapsedState =
     \<lparr>collapsedSections = [- 1 \<mapsto> [2 \<mapsto> JBool True]], hiddenColumns = HiddenObject (Some [3])\<rparr>"

section \<open>Properties of the child header resolver\<close>

text \<open>The result never holds a real index twice; where the real index grows with the
  nested position at the child level, the result is strictly increasing and the offset of a
  collapse is at least 1.\<close>

lemma childHeadersLoop_distinct:
  assumes "distinct acc"
  shows "distinct (childHeadersLoop e row start i n acc)"
  using assms
proof (induction e row start i n acc rule: childHeadersLoop.induct)
  case (1 e row start i n acc)
  show ?case
  proof (cases "i < start + n")
    case True
    let ?n' = "case colspanAt e (columnHeaderLevelCount e + row + 1) i of
                 None \<Rightarrow> n | Some c \<Rightarrow> if 1 < c then n - c else n"
    let ?r = "nestedColumnIndexToRealIndex e (row + 1) i"
    let ?acc' = "if ?r \<in> set acc then acc else acc @ [?r]"
    have d: "distinct ?acc'" using 1(2) by simp
    have "distinct (childHeadersLoop e row start (i + 1) ?n' ?acc')"
      using 1(1) [OF True refl refl refl d] .
    with True show ?thesis
      by (subst childHeadersLoop.simps) (simp add: Let_def)
  next
    case False
    with 1(2) show ?thesis by (subst childHeadersLoop.simps) simp
  qed
qed

lemma getChildHeaders_distinct: "distinct (getChildHeaders e row col colspan_arg)"
  by (cases colspan_arg) (simp_all add: getChildHeaders_def Let_def childHeadersLoop_distinct)

lemma childHeadersLoop_increasing:
  assumes "\<forall>i j. i < j \<longrightarrow> nestedColumnIndexToRealIndex e (row + 1) i < nestedColumnIndexToRealIndex e (row + 1) j"
    and "sorted_wrt (<) acc"
    and "\<forall>x \<in> set acc. x < nestedColumnIndexToRealIndex e (row + 1) i"
  shows "sorted_wrt (<) (childHeadersLoop e row start i n acc)"
  using assms
proof (induction e row start i n acc rule: childHeadersLoop.induct)
  case (1 e row start i n acc)
  show ?case
  proof (cases "i < start + n")
    case True
    let ?n' = "case colspanAt e (columnHeaderLevelCount e + row + 1) i of
                 None \<Rightarrow> n | Some c \<Rightarrow> if 1 < c then n - c else n"
    let ?r = "nestedColumnIndexToRealIndex e (row + 1) i"
    let ?acc' = "if ?r \<in> set acc then acc else acc @ [?r]"
    have notin: "?r \<notin> set acc" using 1(4) by auto
    have s: "sorted_wrt (<) ?acc'"
      using 1(3) 1(4) notin by (simp add: sorted_wrt_append)
    have next_lt: "?r < nestedColumnIndexToRealIndex e (row + 1) (i + 1)"
      using 1(2) by simp
    have b: "\<forall>x \<in> set ?acc'. x < nestedColumnIndexToRealIndex e (row + 1) (i + 1)"
      using 1(4) next_lt notin by auto
    have "sorted_wrt (<) (childHeadersLoop e row start (i + 1) ?n' ?acc')"
      using 1(1) [OF True refl refl refl 1(2) s b] .
    with True show ?thesis
      by (subst childHeadersLoop.simps) (simp add: Let_def)
  next
    case False
    with 1(3) show ?thesis by (subst childHeadersLoop.simps) simp
  qed
qed

lemma firstElementColspan_positive:
  assumes "\<forall>i j. i < j \<longrightarrow> nestedColumnIndexToRealIndex e (row + 1) i < nestedColumnIndexToRealIndex e (row + 1) j"
  shows "1 \<le> firstElementColspan e row col n"
proof -
  have "sorted_wrt (<) (getChildHeaders e row col (Some n))"
    using childHeadersLoop_increasing [OF assms, of "[]"]
    by (simp add: getChildHeaders_def Let_def)
  then show ?thesis
    by (auto simp: firstElementColspan_def split: list.splits)
qed

section \<open>The loops of toggleCollapsedSection\<close>

lemma hideLoop_closed:
  "hideLoop i n base hidden acc =
     acc @ filter (\<lambda>c. c \<notin> set hidden) (map (\<lambda>k. base + k) [i..n - 1])"
proof (induction i n base hidden acc rule: hideLoop.induct)
  case (1 i n base hidden acc)
  show ?case
  proof (cases "i < n")
    case True
    then have up: "[i..n - 1] = i # [i + 1..n - 1]"
      by (intro upto_rec1) simp
    from True 1 show ?thesis
      by (subst hideLoop.simps) (simp add: up Let_def)
  next
    case False
    then show ?thesis by (subst hideLoop.simps) simp
  qed
qed

lemma showLoop_absent:
  assumes "\<forall>k. i \<le> k \<and> k < n \<longrightarrow> base + k \<notin> set acc"
  shows "showLoop i n base acc = acc"
  using assms
proof (induction i n base acc rule: showLoop.induct)
  case (1 i n base acc)
  show ?case
  proof (cases "i < n")
    case True
    have "base + i \<notin> set acc" using True 1(2) by simp
    then have r: "remove1 (base + i) acc = acc" by (simp add: remove1_idem)
    have "showLoop (i + 1) n base acc = acc"
      using 1(1) [OF True refl] 1(2) r by simp
    with True r show ?thesis by (subst showLoop.simps) (simp add: Let_def)
  next
    case False
    then show ?thesis by (subst showLoop.simps) simp
  qed
qed

lemma showLoop_undo:
  assumes "i \<le> j" and "\<forall>k. i \<le> k \<and> k < n \<longrightarrow> base + k \<notin> set h"
  shows "showLoop i n base (h @ map (\<lambda>k. base + k) [j..n - 1]) = h"
  using assms
proof (induction i n base "h @ map (\<lambda>k. base + k) [j..n - 1]" arbitrary: j rule: showLoop.induct)
  case (1 i n base)
  show ?case
  proof (cases "i < n")
    case True
    note lt = True
    have notin: "base + i \<notin> set h" using lt 1(3) by simp
    show ?thesis
    proof (cases "i = j")
      case True
      then have up: "[j..n - 1] = j # [j + 1..n - 1]" using lt by (intro upto_rec1) simp
      have rm: "remove1 (base + i) (h @ map (\<lambda>k. base + k) [j..n - 1]) = h @ map (\<lambda>k. base + k) [j + 1..n - 1]"
        using notin True by (simp add: up remove1_append)
      have "showLoop (i + 1) n base (h @ map (\<lambda>k. base + k) [j + 1..n - 1]) = h"
        using 1(1) [OF lt refl, of "j + 1"] rm True 1(3) by simp
      with lt rm show ?thesis by (subst showLoop.simps) (simp add: Let_def)
    next
      case False
      then have "i < j" using 1(2) by simp
      then have "base + i \<notin> set (h @ map (\<lambda>k. base + k) [j..n - 1])"
        using notin by auto
      then have rm: "remove1 (base + i) (h @ map (\<lambda>k. base + k) [j..n - 1]) = h @ map (\<lambda>k. base + k) [j..n - 1]"
        by (simp add: remove1_idem)
      have "showLoop (i + 1) n base (h @ map (\<lambda>k. base + k) [j..n - 1]) = h"
        using 1(1) [OF lt refl, of j] rm \<open>i < j\<close> 1(3) by simp
      with lt rm show ?thesis by (subst showLoop.simps) (simp add: Let_def)
    qed
  next
    case False
    then have "[j..n - 1] = []" using 1(2) by simp
    with False show ?thesis by (subst showLoop.simps) simp
  qed
qed

lemma showLoop_distinct:
  assumes "distinct acc"
  shows "showLoop i n base acc = filter (\<lambda>c. c \<notin> (\<lambda>k. base + k) ` {i..<n}) acc"
  using assms
proof (induction i n base acc rule: showLoop.induct)
  case (1 i n base acc)
  show ?case
  proof (cases "i < n")
    case True
    have d: "distinct (remove1 (base + i) acc)" using 1(2) by simp
    have "removeAll (base + i) acc = filter (\<lambda>c. c \<noteq> base + i) acc"
      by (induction acc) auto
    then have rm: "remove1 (base + i) acc = filter (\<lambda>c. c \<noteq> base + i) acc"
      using 1(2) by (simp add: distinct_remove1_removeAll)
    have S: "{i..<n} = insert i {i + 1..<n}" using True by auto
    have "showLoop (i + 1) n base (remove1 (base + i) acc) =
          filter (\<lambda>c. c \<notin> (\<lambda>k. base + k) ` {i + 1..<n}) (remove1 (base + i) acc)"
      using 1(1) [OF True refl d] .
    also have "\<dots> = filter (\<lambda>c. c \<notin> (\<lambda>k. base + k) ` {i..<n}) acc"
      unfolding rm S by (auto intro!: filter_cong)
    finally show ?thesis using True by (subst showLoop.simps) (simp add: Let_def)
  next
    case False
    then have "filter (\<lambda>c. c \<notin> (\<lambda>k. base + k) ` {i..<n}) acc = acc"
      by simp
    with False show ?thesis by (subst showLoop.simps) simp
  qed
qed

section \<open>The marking as a list of writes\<close>

lemma writeAll_Nil [simp]: "writeAll v [] cs = cs"
  by (simp add: writeAll_def)

lemma writeAll_Cons [simp]: "writeAll v (k # ks) cs = writeAll v ks (setSection (fst k) (snd k) v cs)"
  by (simp add: writeAll_def)

lemma writeAll_append [simp]: "writeAll v (ks @ ks') cs = writeAll v ks' (writeAll v ks cs)"
  by (simp add: writeAll_def)

lemma mark_refines:
  "markSectionAs e st row col recursive cs =
     (writeAll (markValue st) (fst (markedSections e row col recursive)) cs,
      snd (markedSections e row col recursive))"
  "markChildren e st row children cs =
     (writeAll (markValue st) (fst (markedChildren e row children)) cs,
      snd (markedChildren e row children))"
proof (induction e row col recursive and e row children arbitrary: cs and cs
       rule: markedSections_markedChildren.induct)
  case (1 e row col recursive)
  show ?case
  proof (cases recursive)
    case False
    then show ?thesis
      by (simp add: markSectionAs.simps(1) markedSections.simps(1))
  next
    case True
    note rec = True
    show ?thesis
    proof (cases "js_index (colspanSettings e) (columnHeaderLevelCount e + row)")
      case None
      with rec show ?thesis
        by (simp add: markSectionAs.simps(1) markedSections.simps(1))
    next
      case (Some lv)
      show ?thesis
        using rec Some 1 [OF rec Some]
        by (simp add: markSectionAs.simps(1) markedSections.simps(1) split: prod.splits)
    qed
  qed
next
  case (2 e row)
  show ?case by (simp add: markChildren.simps(1) markedChildren.simps(1))
next
  case (3 e row child rest)
  let ?p = "realColumnIndexToNestedIndex e (row + 1) child"
  show ?case
  proof (cases "spansMany e (columnHeaderLevelCount e + row + 1) ?p")
    case False
    then show ?thesis
      using 3(3) [OF refl False]
      by (simp add: markChildren.simps(2) markedChildren.simps(2))
  next
    case True
    note sp = True
    show ?thesis
    proof (cases "theadHasRow e (columnHeaderLevelCount e + row + 1)")
      case False
      with sp show ?thesis
        by (simp add: markChildren.simps(2) markedChildren.simps(2))
    next
      case True
      note dom = True
      obtain ks err where m: "markedSections e (row + 1) ?p True = (ks, err)"
        by (cases "markedSections e (row + 1) ?p True")
      have ih1: "\<And>cs. markSectionAs e st (row + 1) ?p True cs = (writeAll (markValue st) ks cs, err)"
        using 3(1) [OF refl sp dom] m by simp
      show ?thesis
      proof (cases err)
        case (Some x)
        with sp dom m ih1 show ?thesis
          by (simp add: markChildren.simps(2) markedChildren.simps(2))
      next
        case None
        have ih2: "\<And>cs. markChildren e st row rest cs =
             (writeAll (markValue st) (fst (markedChildren e row rest)) cs, snd (markedChildren e row rest))"
          using 3(2) [OF refl sp dom m [unfolded None, symmetric] refl] .
        from sp dom m ih1 ih2 None show ?thesis
          by (simp add: markChildren.simps(2) markedChildren.simps(2) split: prod.splits)
      qed
    qed
  qed
qed

lemma isCollapsed_cellAt: "isCollapsed cs row col = (cellAt cs row col = Some (JBool True))"
  by (simp add: isCollapsed_def cellAt_def split: option.splits)

lemma cellAt_setSection:
  "cellAt (setSection r0 c0 v cs) r c = (if r = r0 \<and> c = c0 then Some v else cellAt cs r c)"
  by (auto simp: cellAt_def setSection_def split: option.splits)

lemma setSection_row:
  "setSection r0 c0 v cs r =
     (if r = r0 then Some (cellAt (setSection r0 c0 v cs) r0) else cs r)"
  by (auto simp: setSection_def cellAt_def fun_eq_iff split: option.splits)

lemma cellAt_writeAll:
  "cellAt (writeAll v ks cs) r c = (if (r, c) \<in> set ks then Some v else cellAt cs r c)"
proof (induction ks arbitrary: cs)
  case Nil
  show ?case by simp
next
  case (Cons k ks)
  show ?case
    by (cases k) (simp add: Cons.IH cellAt_setSection)
qed

lemma writeAll_row:
  "writeAll v ks cs r =
     (if r \<in> fst ` set ks then Some (cellAt (writeAll v ks cs) r) else cs r)"
proof (induction ks arbitrary: cs)
  case Nil
  show ?case by simp
next
  case (Cons k ks)
  obtain r0 c0 where k: "k = (r0, c0)" by (cases k)
  show ?case
  proof (cases "r \<in> fst ` set ks")
    case True
    then show ?thesis by (simp add: Cons.IH)
  next
    case False
    then have notin: "\<And>c. (r, c) \<notin> set ks" by force
    have same: "cellAt (writeAll v ks (setSection r0 c0 v cs)) r = cellAt (setSection r0 c0 v cs) r"
      using notin by (simp add: fun_eq_iff cellAt_writeAll)
    have "writeAll v ks (setSection r0 c0 v cs) r = setSection r0 c0 v cs r"
      using False by (simp add: Cons.IH)
    also have "\<dots> = (if r = r0 then Some (cellAt (setSection r0 c0 v cs) r0) else cs r)"
      by (rule setSection_row)
    finally show ?thesis
      using False same by (auto simp: k)
  qed
qed

lemma writeAll_idem: "writeAll v ks (writeAll v ks cs) = writeAll v ks cs"
proof
  fix r
  have "cellAt (writeAll v ks (writeAll v ks cs)) r = cellAt (writeAll v ks cs) r"
    by (simp add: fun_eq_iff cellAt_writeAll)
  then show "writeAll v ks (writeAll v ks cs) r = writeAll v ks cs r"
    by (simp add: writeAll_row [of v ks "writeAll v ks cs"] writeAll_row [of v ks cs, symmetric])
       (simp add: writeAll_row [of v ks cs])
qed

lemma marked_rows:
  "(r, c) \<in> set (fst (markedSections e row col recursive)) \<Longrightarrow> row \<le> r"
  "(r, c) \<in> set (fst (markedChildren e row children)) \<Longrightarrow> row + 1 \<le> r"
proof (induction e row col recursive and e row children
       rule: markedSections_markedChildren.induct)
  case (1 e row col recursive)
  then show ?case
    by (fastforce simp: markedSections.simps split: if_splits option.splits prod.splits)
next
  case (2 e row)
  then show ?case by (simp add: markedChildren.simps)
next
  case (3 e row child rest)
  then show ?case
    by (fastforce simp: markedChildren.simps Let_def split: if_splits option.splits prod.splits)
qed

lemma markedSections_hd:
  "\<exists>ks. fst (markedSections e row col recursive) = (row, col) # ks \<and> (\<forall>k\<in>set ks. row + 1 \<le> fst k)"
proof (cases "recursive \<and> js_index (colspanSettings e) (columnHeaderLevelCount e + row) \<noteq> None")
  case False
  then show ?thesis by (auto simp: markedSections.simps)
next
  case True
  then obtain lv where lv: "js_index (colspanSettings e) (columnHeaderLevelCount e + row) = Some lv"
    by auto
  obtain ks err where m: "markedChildren e row (tl (getChildHeaders e row col (js_index lv col))) = (ks, err)"
    by (cases "markedChildren e row (tl (getChildHeaders e row col (js_index lv col)))")
  have "\<forall>k\<in>set ks. row + 1 \<le> fst k"
    using marked_rows(2) [of _ _ e row "tl (getChildHeaders e row col (js_index lv col))"] m
    by auto
  with True lv m show ?thesis by (simp add: markedSections.simps)
qed

lemma markedChildren_no_level:
  assumes "js_index (colspanSettings e) (columnHeaderLevelCount e + row + 1) = None"
  shows "markedChildren e row children = ([], None)"
proof (induction children)
  case Nil
  show ?case by (simp add: markedChildren.simps)
next
  case (Cons child rest)
  have "\<not> spansMany e (columnHeaderLevelCount e + row + 1) (realColumnIndexToNestedIndex e (row + 1) child)"
    using assms by (simp add: spansMany_def colspanAt_def)
  then show ?case by (simp add: markedChildren.simps Cons.IH)
qed

lemma marked_no_error:
  "(recursive \<longrightarrow> js_index (colspanSettings e) (columnHeaderLevelCount e + row) \<noteq> None) \<Longrightarrow>
   int (length (colspanSettings e)) \<le> theadRows e \<Longrightarrow>
   snd (markedSections e row col recursive) = None"
  "int (length (colspanSettings e)) \<le> theadRows e \<Longrightarrow>
   snd (markedChildren e row children) = None"
proof (induction e row col recursive and e row children
       rule: markedSections_markedChildren.induct)
  case (1 e row col recursive)
  then show ?case
    by (auto simp: markedSections.simps split: option.splits prod.splits)
next
  case (2 e row)
  show ?case by (simp add: markedChildren.simps)
next
  case (3 e row child rest)
  let ?p = "realColumnIndexToNestedIndex e (row + 1) child"
  show ?case
  proof (cases "spansMany e (columnHeaderLevelCount e + row + 1) ?p")
    case False
    then show ?thesis using 3(3) [OF refl False 3(4)] by (simp add: markedChildren.simps)
  next
    case True
    note lv = spansMany_level [OF True]
    have th: "theadHasRow e (columnHeaderLevelCount e + row + 1)"
      using lv 3(4) by (simp add: theadHasRow_def)
    have own: "js_index (colspanSettings e) (columnHeaderLevelCount e + (row + 1)) \<noteq> None"
      using lv by (simp add: js_index_def add.assoc)
    obtain ks err where m: "markedSections e (row + 1) ?p True = (ks, err)"
      by (cases "markedSections e (row + 1) ?p True")
    have "err = None" using 3(1) [OF refl True th _ 3(4)] own m by simp
    with m have m': "markedSections e (row + 1) ?p True = (ks, None)" by simp
    have "snd (markedChildren e row rest) = None"
      using 3(2) [OF refl True th m' [symmetric] refl 3(4)] .
    with True th m' show ?thesis
      by (auto simp: markedChildren.simps split: prod.splits)
  qed
qed

lemma markSectionAs_writes_own:
  "cellAt (fst (markSectionAs e st row col recursive cs)) row col = Some (markValue st)"
proof -
  obtain ks where "fst (markedSections e row col recursive) = (row, col) # ks"
    using markedSections_hd [of e row col recursive] by blast
  then show ?thesis by (simp add: mark_refines(1) cellAt_writeAll cellAt_setSection)
qed

section \<open>The transitions\<close>

lemma markAndToggle_sections:
  "collapsedSections (fst (markAndToggle e st act ev s)) =
     fst (markSectionAs e st (coords_row ev) (coords_col ev) True (collapsedSections s))"
  by (simp add: markAndToggle_def split: prod.splits option.splits)

lemma markAndToggle_hidden:
  "hiddenColumns (fst (markAndToggle e st act ev s)) =
     (if snd (markSectionAs e st (coords_row ev) (coords_col ev) True (collapsedSections s)) = None
      then fst (toggleCollapsedSection e (coords_row ev) (coords_col ev) (eventTD ev) act (hiddenColumns s))
      else hiddenColumns s)"
  by (auto simp: markAndToggle_def split: prod.splits option.splits)

lemma markAndToggle_error:
  "snd (markAndToggle e st act ev s) =
     (case snd (markSectionAs e st (coords_row ev) (coords_col ev) True (collapsedSections s)) of
        Some err \<Rightarrow> Some err
      | None \<Rightarrow> snd (toggleCollapsedSection e (coords_row ev) (coords_col ev) (eventTD ev) act (hiddenColumns s)))"
  by (auto simp: markAndToggle_def split: prod.splits option.splits)

lemma setSection_ensured:
  "setSection row col v (case cs row of None \<Rightarrow> cs(row \<mapsto> Map.empty) | Some r \<Rightarrow> cs) =
   setSection row col v cs"
  by (auto simp: setSection_def split: option.splits)

lemma markSectionAs_ensured:
  "markSectionAs e st row col recursive (case cs row of None \<Rightarrow> cs(row \<mapsto> Map.empty) | Some r \<Rightarrow> cs) =
   markSectionAs e st row col recursive cs"
  by (simp only: markSectionAs.simps setSection_ensured)

lemma collapse_eq:
  "collapse e row col td s =
     markAndToggle e Collapsed Collapse
       \<lparr>target = IndicatorElement IndicatorExpanded, coords_row = row, coords_col = col, eventTD = td\<rparr> s"
proof (cases "collapsedSections s row")
  case None
  then have "markSectionAs e Collapsed row col True ((collapsedSections s)(row \<mapsto> Map.empty)) =
             markSectionAs e Collapsed row col True (collapsedSections s)"
    using markSectionAs_ensured [of e Collapsed row col True "collapsedSections s"] by simp
  with None show ?thesis
    by (cases s)
       (auto simp: collapse_def onBeforeOnCellMouseDown_def markAndToggle_def
             split: prod.splits option.splits)
next
  case (Some r)
  then show ?thesis
    by (cases s) (simp add: collapse_def onBeforeOnCellMouseDown_def)
qed

lemma expand_eq:
  "expand e row col td s =
     markAndToggle e Expanded Expand
       \<lparr>target = IndicatorElement IndicatorCollapsed, coords_row = row, coords_col = col, eventTD = td\<rparr> s"
  by (simp add: expand_def onBeforeOnCellMouseDown_def)

lemma event_cases:
  "onBeforeOnCellMouseDown e ev s = (s, None) \<or>
   onBeforeOnCellMouseDown e ev s = collapse e (coords_row ev) (coords_col ev) (eventTD ev) s \<or>
   onBeforeOnCellMouseDown e ev s = expand e (coords_row ev) (coords_col ev) (eventTD ev) s"
proof -
  obtain t r c td where ev: "ev = \<lparr>target = t, coords_row = r, coords_col = c, eventTD = td\<rparr>"
    by (cases ev) auto
  show ?thesis
  proof (cases t)
    case OtherElement
    then show ?thesis by (simp add: ev onBeforeOnCellMouseDown_def)
  next
    case (IndicatorElement i)
    then show ?thesis
      by (cases i) (simp_all add: ev collapse_def expand_def)
  qed
qed

lemma toggle_collapse:
  assumes "hs \<noteq> HiddenUndefined"
  shows "toggleCollapsedSection e row col \<lparr>colspanAttr = Some n, rowIndex = ri\<rparr> Collapse hs =
     (HiddenObject (Some (hideLoop (firstElementColspan e row col n) n
         (col + getColspanOffset e col (theadRows e - ri - 1))
         (currentlyHiddenColumns hs) (currentlyHiddenColumns hs))), None)"
  using assms by (cases hs) (simp_all add: toggleCollapsedSection_def Let_def)

lemma toggle_expand:
  assumes "hs \<noteq> HiddenUndefined"
  shows "toggleCollapsedSection e row col \<lparr>colspanAttr = Some n, rowIndex = ri\<rparr> Expand hs =
     (HiddenObject (Some (showLoop 1 n
         (col + getColspanOffset e col (theadRows e - ri - 1))
         (currentlyHiddenColumns hs))), None)"
  using assms by (cases hs) (simp_all add: toggleCollapsedSection_def Let_def)

section \<open>Collapse, then expand\<close>

text \<open>Collapsing the merged level-1 cell of the cascade scenario hides real column 3 and
  marks the cell. From that state, collapsing and then expanding the level-0 section leaves
  nothing hidden and the level-1 cell expanded.\<close>

theorem round_trip_counterexample:
  "hiddenColumns (fst (collapse cascadeEnv (- 1) 2 mergedCell emptyState)) = hiddenColumns childCollapsedState \<and>
   isCollapsed (collapsedSections (fst (collapse cascadeEnv (- 1) 2 mergedCell emptyState))) (- 1) 2 \<and>
   hiddenColumns childCollapsedState = HiddenObject (Some [3]) \<and>
   isCollapsed (collapsedSections childCollapsedState) (- 1) 2 \<and>
   snd (collapse cascadeEnv (- 2) 0 topCell childCollapsedState) = None \<and>
   snd (expand cascadeEnv (- 2) 0 topCell (fst (collapse cascadeEnv (- 2) 0 topCell childCollapsedState))) = None \<and>
   hiddenColumns (fst (expand cascadeEnv (- 2) 0 topCell
      (fst (collapse cascadeEnv (- 2) 0 topCell childCollapsedState)))) = HiddenObject (Some []) \<and>
   \<not> isCollapsed (collapsedSections (fst (expand cascadeEnv (- 2) 0 topCell
      (fst (collapse cascadeEnv (- 2) 0 topCell childCollapsedState))))) (- 1) 2"
  by code_simp

lemma upto_map_notin:
  assumes "\<forall>i. 1 \<le> i \<and> i < n \<longrightarrow> base + i \<notin> set h" and "1 \<le> off"
  shows "filter (\<lambda>c. c \<notin> set h) (map (\<lambda>k. base + k) [off..n - 1]) = map (\<lambda>k. base + k) [off..n - 1]"
proof (rule filter_True)
  show "\<forall>x\<in>set (map (\<lambda>k. base + k) [off..n - 1]). x \<notin> set h"
  proof
    fix x
    assume "x \<in> set (map (\<lambda>k. base + k) [off..n - 1])"
    then have "x \<in> (\<lambda>k. base + k) ` set [off..n - 1]" by (simp only: set_map)
    then obtain k where x: "x = base + k" and k: "k \<in> set [off..n - 1]" by (rule imageE)
    from k assms(2) have "1 \<le> k \<and> k < n" by simp
    with assms(1) show "x \<notin> set h" unfolding x by blast
  qed
qed

text \<open>
  C1 (amended). Let a collapse of a section with colspan \<open>n\<close> raise no error, from a state in
  which none of the real columns \<open>col + colspanOffset + i\<close>, \<open>1 \<le> i < n\<close>, is hidden, and
  neither the section nor any descendant section that the recursive marking writes is
  collapsed; let the offset of the collapse be at least 1. Then the expand of the same
  section right after it raises no error, the list of hidden columns is the one before the
  collapse, and isCollapsed has its value of before the collapse at every row and column.
\<close>

theorem round_trip:
  assumes ok: "snd (collapse e row col \<lparr>colspanAttr = Some n, rowIndex = ri\<rparr> s) = None"
    and hidden: "\<forall>i. 1 \<le> i \<and> i < n \<longrightarrow>
        col + getColspanOffset e col (theadRows e - ri - 1) + i
          \<notin> set (currentlyHiddenColumns (hiddenColumns s))"
    and offset: "1 \<le> firstElementColspan e row col n"
    and marked: "\<forall>k \<in> set (fst (markedSections e row col True)).
        \<not> isCollapsed (collapsedSections s) (fst k) (snd k)"
  shows "snd (expand e row col \<lparr>colspanAttr = Some n, rowIndex = ri\<rparr>
                (fst (collapse e row col \<lparr>colspanAttr = Some n, rowIndex = ri\<rparr> s))) = None \<and>
         currentlyHiddenColumns (hiddenColumns (fst (expand e row col \<lparr>colspanAttr = Some n, rowIndex = ri\<rparr>
                (fst (collapse e row col \<lparr>colspanAttr = Some n, rowIndex = ri\<rparr> s))))) =
           currentlyHiddenColumns (hiddenColumns s) \<and>
         (\<forall>r c. isCollapsed (collapsedSections (fst (expand e row col \<lparr>colspanAttr = Some n, rowIndex = ri\<rparr>
                (fst (collapse e row col \<lparr>colspanAttr = Some n, rowIndex = ri\<rparr> s))))) r c =
               isCollapsed (collapsedSections s) r c)"
proof -
  let ?td = "\<lparr>colspanAttr = Some n, rowIndex = ri\<rparr>"
  let ?base = "col + getColspanOffset e col (theadRows e - ri - 1)"
  let ?h = "currentlyHiddenColumns (hiddenColumns s)"
  let ?ks = "fst (markedSections e row col True)"
  let ?s1 = "fst (collapse e row col ?td s)"
  let ?s2 = "fst (expand e row col ?td ?s1)"
  have m: "\<And>st cs. markSectionAs e st row col True cs =
     (writeAll (markValue st) ?ks cs, snd (markedSections e row col True))"
    by (rule mark_refines(1))
  have noerr: "snd (markedSections e row col True) = None"
    using ok by (auto simp: collapse_eq markAndToggle_error m split: option.splits)
  have defined: "hiddenColumns s \<noteq> HiddenUndefined"
    using ok noerr
    by (auto simp: collapse_eq markAndToggle_error m toggleCollapsedSection_def split: option.splits)
  have h1: "hiddenColumns ?s1 = HiddenObject (Some (?h @ map (\<lambda>k. ?base + k) [firstElementColspan e row col n..n - 1]))"
    using noerr defined upto_map_notin [OF hidden offset]
    by (simp add: collapse_eq markAndToggle_hidden m toggle_collapse hideLoop_closed)
  have cs1: "collapsedSections ?s1 = writeAll (JBool True) ?ks (collapsedSections s)"
    by (simp add: collapse_eq markAndToggle_sections m markValue_def)
  have e2: "snd (expand e row col ?td ?s1) = None"
    using noerr h1 by (simp add: expand_eq markAndToggle_error m toggle_expand)
  have "hiddenColumns ?s2 = HiddenObject (Some (showLoop 1 n ?base
          (?h @ map (\<lambda>k. ?base + k) [firstElementColspan e row col n..n - 1])))"
    using noerr h1
    by (simp add: expand_eq markAndToggle_hidden m toggle_expand currentlyHiddenColumns_def)
  then have h2: "currentlyHiddenColumns (hiddenColumns ?s2) = ?h"
    using showLoop_undo [OF offset, of n ?base ?h] hidden
    by (simp add: currentlyHiddenColumns_def)
  have cs2: "collapsedSections ?s2 = writeAll JUndefined ?ks (writeAll (JBool True) ?ks (collapsedSections s))"
    by (simp add: expand_eq markAndToggle_sections m markValue_def cs1)
  have c2: "isCollapsed (collapsedSections ?s2) r c = isCollapsed (collapsedSections s) r c" for r c
    using marked by (auto simp: cs2 isCollapsed_cellAt cellAt_writeAll)
  from e2 h2 c2 show ?thesis by blast
qed

theorem round_trip_witness:
  "snd (collapse cascadeEnv (- 2) 0 \<lparr>colspanAttr = Some 4, rowIndex = 0\<rparr> emptyState) = None \<and>
   1 \<le> firstElementColspan cascadeEnv (- 2) 0 4 \<and>
   fst (markedSections cascadeEnv (- 2) 0 True) = [(- 2, 0), (- 1, 2)] \<and>
   snd (expand cascadeEnv (- 2) 0 \<lparr>colspanAttr = Some 4, rowIndex = 0\<rparr>
          (fst (collapse cascadeEnv (- 2) 0 \<lparr>colspanAttr = Some 4, rowIndex = 0\<rparr> emptyState))) = None \<and>
   currentlyHiddenColumns (hiddenColumns (fst (expand cascadeEnv (- 2) 0 \<lparr>colspanAttr = Some 4, rowIndex = 0\<rparr>
          (fst (collapse cascadeEnv (- 2) 0 \<lparr>colspanAttr = Some 4, rowIndex = 0\<rparr> emptyState))))) = [] \<and>
   isCollapsed (collapsedSections (fst (expand cascadeEnv (- 2) 0 \<lparr>colspanAttr = Some 4, rowIndex = 0\<rparr>
          (fst (collapse cascadeEnv (- 2) 0 \<lparr>colspanAttr = Some 4, rowIndex = 0\<rparr> emptyState))))) (- 1) 2 =
     isCollapsed (collapsedSections emptyState) (- 1) 2"
proof -
  have ok: "snd (collapse cascadeEnv (- 2) 0 \<lparr>colspanAttr = Some 4, rowIndex = 0\<rparr> emptyState) = None"
    by code_simp
  have h: "currentlyHiddenColumns (hiddenColumns emptyState) = []"
    by (simp add: emptyState_def currentlyHiddenColumns_def)
  have hidden: "\<forall>i. 1 \<le> i \<and> i < 4 \<longrightarrow>
        0 + getColspanOffset cascadeEnv 0 (theadRows cascadeEnv - 0 - 1) + i
          \<notin> set (currentlyHiddenColumns (hiddenColumns emptyState))"
    by (simp add: h)
  have offset: "1 \<le> firstElementColspan cascadeEnv (- 2) 0 4" by code_simp
  have ks: "fst (markedSections cascadeEnv (- 2) 0 True) = [(- 2, 0), (- 1, 2)]" by code_simp
  have marked: "\<forall>k \<in> set (fst (markedSections cascadeEnv (- 2) 0 True)).
        \<not> isCollapsed (collapsedSections emptyState) (fst k) (snd k)"
    by (simp add: ks emptyState_def isCollapsed_def)
  show ?thesis
    using round_trip [OF ok hidden offset marked] ok offset ks h by simp
qed

section \<open>The cascade scenario\<close>

lemma markChildren_no_level:
  assumes "js_index (colspanSettings e) (columnHeaderLevelCount e + row + 1) = None"
  shows "markChildren e st row children cs = (cs, None)"
  by (simp add: mark_refines(2) markedChildren_no_level [OF assms])

lemma cascade_children:
  assumes "cascadeHeader e"
  shows "getChildHeaders e (- 2) 0 (Some 4) = [0, 1, 2]"
  using assms
  by (simp add: cascadeHeader_def getChildHeaders_def childHeadersLoop.simps colspanAt_def js_index_def)

lemma cascade_marking:
  assumes "cascadeHeader e"
  shows "markSectionAs e st (- 2) 0 True cs =
           (setSection (- 1) 2 (markValue st) (setSection (- 2) 0 (markValue st) cs), None)"
proof -
  have lc: "columnHeaderLevelCount e = 2"
    using assms by (simp add: cascadeHeader_def)
  have lv0: "js_index (colspanSettings e) 0 = Some [4]"
    and lv1: "js_index (colspanSettings e) 1 = Some [1, 1, 2]"
    and lv2: "js_index (colspanSettings e) 2 = None"
    using assms by (simp_all add: cascadeHeader_def js_index_def)
  have leaf: "markChildren e st (- 1) children cs' = (cs', None)" for children cs'
    using markChildren_no_level [of e "- 1" st children cs'] by (simp add: lc lv2)
  have inner: "markSectionAs e st (- 1) 2 True cs' = (setSection (- 1) 2 (markValue st) cs', None)" for cs'
    by (simp add: markSectionAs.simps lc lv1 leaf)
  have s1: "\<not> spansMany e 1 1" and s2: "spansMany e 1 2" and th: "theadHasRow e 1"
    using assms by (simp_all add: cascadeHeader_def spansMany_def colspanAt_def js_index_def theadHasRow_def)
  have n: "realColumnIndexToNestedIndex e (- 1) 1 = 1" "realColumnIndexToNestedIndex e (- 1) 2 = 2"
    using assms by (simp_all add: cascadeHeader_def)
  have "markChildren e st (- 2) [1, 2] cs' = (setSection (- 1) 2 (markValue st) cs', None)" for cs'
    by (simp add: markChildren.simps lc n s1 s2 th inner)
  moreover have "js_index [4::int] 0 = Some 4"
    by (simp add: js_index_def)
  ultimately show ?thesis
    using cascade_children [OF assms]
    by (simp add: markSectionAs.simps lc lv0)
qed

text \<open>
  C2. In every two-level header where the level-0 cell at position 0 spans real columns
  0..3 and level 1 has single-column cells at real columns 0 and 1 and one merged cell over
  real columns 2..3, collapsing the level-0 section (grid row -2, column 0) from the state
  with nothing hidden and nothing collapsed raises no error, keeps one leading column (the
  offset is 1), leaves exactly the real columns 1, 2, 3 hidden, and marks the level-1
  merged cell (grid row -1, nested position 2) as collapsed.
\<close>

theorem cascade_collapse:
  assumes "cascadeHeader e"
  shows "snd (collapse e (- 2) 0 topCell emptyState) = None \<and>
         firstElementColspan e (- 2) 0 4 = 1 \<and>
         hiddenColumns (fst (collapse e (- 2) 0 topCell emptyState)) = HiddenObject (Some [1, 2, 3]) \<and>
         isCollapsed (collapsedSections (fst (collapse e (- 2) 0 topCell emptyState))) (- 1) 2 \<and>
         isCollapsed (collapsedSections (fst (collapse e (- 2) 0 topCell emptyState))) (- 2) 0"
proof -
  have off: "firstElementColspan e (- 2) 0 4 = 1"
    by (simp add: firstElementColspan_def cascade_children [OF assms])
  have base: "getColspanOffset e 0 (theadRows e - 0 - 1) = 0"
    using assms by (simp add: cascadeHeader_def)
  have u: "[1..(3::int)] = [1, 2, 3]" by code_simp
  have t: "toggleCollapsedSection e (- 2) 0 topCell Collapse (HiddenObject (Some [])) =
           (HiddenObject (Some [1, 2, 3]), None)"
    using base by (simp add: topCell_def toggle_collapse hideLoop_closed off currentlyHiddenColumns_def u)
  have c: "collapse e (- 2) 0 topCell emptyState =
     (\<lparr>collapsedSections = setSection (- 1) 2 (JBool True) (setSection (- 2) 0 (JBool True) Map.empty),
       hiddenColumns = HiddenObject (Some [1, 2, 3])\<rparr>, None)"
    by (simp add: collapse_eq markAndToggle_def cascade_marking [OF assms] emptyState_def t markValue_def)
  show ?thesis
    by (simp add: c off isCollapsed_cellAt cellAt_setSection)
qed

theorem cascade_collapse_witness:
  "cascadeHeader cascadeEnv \<and>
   snd (collapse cascadeEnv (- 2) 0 topCell emptyState) = None \<and>
   firstElementColspan cascadeEnv (- 2) 0 4 = 1 \<and>
   hiddenColumns (fst (collapse cascadeEnv (- 2) 0 topCell emptyState)) = HiddenObject (Some [1, 2, 3]) \<and>
   isCollapsed (collapsedSections (fst (collapse cascadeEnv (- 2) 0 topCell emptyState))) (- 1) 2 \<and>
   isCollapsed (collapsedSections (fst (collapse cascadeEnv (- 2) 0 topCell emptyState))) (- 2) 0"
proof -
  have h: "cascadeHeader cascadeEnv" by code_simp
  from h cascade_collapse [OF h] show ?thesis by blast
qed

section \<open>The columns a collapse hides\<close>

lemma childHeadersLoop_prefix:
  "\<exists>ys. childHeadersLoop e row start i n acc = acc @ ys"
proof (induction e row start i n acc rule: childHeadersLoop.induct)
  case (1 e row start i n acc)
  show ?case
  proof (cases "i < start + n")
    case True
    let ?n' = "case colspanAt e (columnHeaderLevelCount e + row + 1) i of
                 None \<Rightarrow> n | Some c \<Rightarrow> if 1 < c then n - c else n"
    let ?r = "nestedColumnIndexToRealIndex e (row + 1) i"
    let ?acc' = "if ?r \<in> set acc then acc else acc @ [?r]"
    obtain ys where ys: "childHeadersLoop e row start (i + 1) ?n' ?acc' = ?acc' @ ys"
      using 1 [OF True refl refl refl] by blast
    have "childHeadersLoop e row start i n acc = ?acc' @ ys"
      using True ys by (subst childHeadersLoop.simps) (simp add: Let_def)
    then show ?thesis by (cases "?r \<in> set acc") auto
  next
    case False
    then show ?thesis by (subst childHeadersLoop.simps) simp
  qed
qed

text \<open>The walk after its first position: the shortened length.\<close>

lemma getChildHeaders_first_step:
  assumes "0 < n"
  shows "getChildHeaders e row col (Some n) =
           childHeadersLoop e row (firstChildPosition e row col) (firstChildPosition e row col + 1)
             (if 1 < firstChildColspan e row col then n - firstChildColspan e row col else n)
             [nestedColumnIndexToRealIndex e (row + 1) (firstChildPosition e row col)]"
proof -
  let ?p = "firstChildPosition e row col"
  have "getChildHeaders e row col (Some n) = childHeadersLoop e row ?p ?p n []"
    by (simp add: getChildHeaders_def firstChildPosition_def Let_def)
  also have "\<dots> = childHeadersLoop e row ?p (?p + 1)
             (if 1 < firstChildColspan e row col then n - firstChildColspan e row col else n)
             [nestedColumnIndexToRealIndex e (row + 1) ?p]"
    using assms
    by (subst childHeadersLoop.simps)
       (auto simp: Let_def firstChildColspan_def split: option.splits)
  finally show ?thesis .
qed

lemma offset_is_first_child_colspan:
  assumes two: "2 \<le> length (getChildHeaders e row col (Some n))"
    and pos: "1 \<le> firstChildColspan e row col"
    and real: "0 \<le> nestedColumnIndexToRealIndex e (row + 1) (firstChildPosition e row col)"
    and adj: "nestedColumnIndexToRealIndex e (row + 1) (firstChildPosition e row col + 1) =
              nestedColumnIndexToRealIndex e (row + 1) (firstChildPosition e row col) +
                firstChildColspan e row col"
  shows "firstElementColspan e row col n = firstChildColspan e row col"
proof -
  let ?p = "firstChildPosition e row col"
  let ?c = "firstChildColspan e row col"
  let ?real = "nestedColumnIndexToRealIndex e (row + 1) ?p"
  let ?n' = "if 1 < ?c then n - ?c else n"
  have n: "0 < n"
  proof (rule ccontr)
    assume "\<not> 0 < n"
    then have "getChildHeaders e row col (Some n) = []"
      by (simp add: getChildHeaders_def Let_def childHeadersLoop.simps)
    with two show False by simp
  qed
  have g: "getChildHeaders e row col (Some n) = childHeadersLoop e row ?p (?p + 1) ?n' [?real]"
    using getChildHeaders_first_step [OF n] .
  have reach: "?p + 1 < ?p + ?n'"
  proof (rule ccontr)
    assume "\<not> ?p + 1 < ?p + ?n'"
    then have "childHeadersLoop e row ?p (?p + 1) ?n' [?real] = [?real]"
      by (subst childHeadersLoop.simps) simp
    with two g show False by simp
  qed
  let ?n'' = "case colspanAt e (columnHeaderLevelCount e + row + 1) (?p + 1) of
                None \<Rightarrow> ?n' | Some c \<Rightarrow> if 1 < c then ?n' - c else ?n'"
  have "childHeadersLoop e row ?p (?p + 1) ?n' [?real] =
        childHeadersLoop e row ?p (?p + 1 + 1) ?n'' [?real, ?real + ?c]"
    using reach pos adj by (subst childHeadersLoop.simps) (simp add: Let_def)
  moreover obtain ys where
    "childHeadersLoop e row ?p (?p + 1 + 1) ?n'' [?real, ?real + ?c] = [?real, ?real + ?c] @ ys"
    using childHeadersLoop_prefix by blast
  ultimately have "getChildHeaders e row col (Some n) = ?real # (?real + ?c) # ys"
    using g by simp
  then show ?thesis
    using pos real by (simp add: firstElementColspan_def)
qed

lemma offset_is_one:
  assumes "n \<le> 1 \<or> n \<le> firstChildColspan e row col"
  shows "firstElementColspan e row col n = 1"
proof (cases "0 < n")
  case False
  then have "getChildHeaders e row col (Some n) = []"
    by (simp add: getChildHeaders_def Let_def childHeadersLoop.simps)
  then show ?thesis by (simp add: firstElementColspan_def)
next
  case True
  let ?p = "firstChildPosition e row col"
  let ?c = "firstChildColspan e row col"
  let ?n' = "if 1 < ?c then n - ?c else n"
  have "\<not> ?p + 1 < ?p + ?n'" using assms True by auto
  then have "childHeadersLoop e row ?p (?p + 1) ?n'
               [nestedColumnIndexToRealIndex e (row + 1) ?p] =
             [nestedColumnIndexToRealIndex e (row + 1) ?p]"
    by (subst childHeadersLoop.simps) simp
  then show ?thesis
    using getChildHeaders_first_step [OF True, of e row col]
    by (simp add: firstElementColspan_def)
qed

text \<open>
  C3 (amended). In every collapse transition, the offset (the number of leading real
  columns of the span that stay visible) equals the colspan of the section's first
  immediate child whenever the child resolver returns at least two children, in a header
  where real indices are not negative, the first child spans at least one column and the
  header cell after it starts where it ends. The offset is 1 when the section's colspan is
  at most 1 or does not exceed the first child's colspan, that is, when the section has no
  child or a single child that spans it. When the hiddenColumns setting is present, the
  list written is the list read followed by the real columns \<open>col + colspanOffset + i\<close> for
  \<open>i\<close> from the offset through \<open>colspan - 1\<close>, in order, without those already in the list
  read.
\<close>

theorem collapse_hides_from_offset:
  "(2 \<le> length (getChildHeaders e row col (Some n)) \<and>
    1 \<le> firstChildColspan e row col \<and>
    0 \<le> nestedColumnIndexToRealIndex e (row + 1) (firstChildPosition e row col) \<and>
    nestedColumnIndexToRealIndex e (row + 1) (firstChildPosition e row col + 1) =
      nestedColumnIndexToRealIndex e (row + 1) (firstChildPosition e row col) +
        firstChildColspan e row col
    \<longrightarrow> firstElementColspan e row col n = firstChildColspan e row col) \<and>
   (n \<le> 1 \<or> n \<le> firstChildColspan e row col \<longrightarrow> firstElementColspan e row col n = 1) \<and>
   (hs \<noteq> HiddenUndefined \<longrightarrow>
    toggleCollapsedSection e row col \<lparr>colspanAttr = Some n, rowIndex = ri\<rparr> Collapse hs =
      (HiddenObject (Some (currentlyHiddenColumns hs @
         filter (\<lambda>c. c \<notin> set (currentlyHiddenColumns hs))
           (map (\<lambda>i. col + getColspanOffset e col (theadRows e - ri - 1) + i)
              [firstElementColspan e row col n..n - 1]))), None))"
  using offset_is_first_child_colspan [of e row col n] offset_is_one [of n e row col]
  by (simp add: toggle_collapse hideLoop_closed)

theorem collapse_hides_from_offset_witness:
  "2 \<le> length (getChildHeaders (headerEnv [[4], [2, 1, 1]]) (- 2) 0 (Some 4)) \<and>
   firstChildColspan (headerEnv [[4], [2, 1, 1]]) (- 2) 0 = 2 \<and>
   firstElementColspan (headerEnv [[4], [2, 1, 1]]) (- 2) 0 4 = 2 \<and>
   firstChildColspan singleChildEnv (- 3) 0 = 4 \<and>
   firstElementColspan singleChildEnv (- 3) 0 4 = 1 \<and>
   toggleCollapsedSection cascadeEnv (- 2) 0 \<lparr>colspanAttr = Some 4, rowIndex = 0\<rparr> Collapse
       (HiddenObject (Some [2])) = (HiddenObject (Some [2, 1, 3]), None)"
proof -
  let ?m = "headerEnv [[4], [2, 1, 1]]"
  have two: "2 \<le> length (getChildHeaders ?m (- 2) 0 (Some 4))" by code_simp
  have c: "firstChildColspan ?m (- 2) 0 = 2" by code_simp
  have pos: "1 \<le> firstChildColspan ?m (- 2) 0" by code_simp
  have real: "0 \<le> nestedColumnIndexToRealIndex ?m (- 2 + 1) (firstChildPosition ?m (- 2) 0)"
    by code_simp
  have adj: "nestedColumnIndexToRealIndex ?m (- 2 + 1) (firstChildPosition ?m (- 2) 0 + 1) =
             nestedColumnIndexToRealIndex ?m (- 2 + 1) (firstChildPosition ?m (- 2) 0) +
               firstChildColspan ?m (- 2) 0"
    by code_simp
  have a: "firstElementColspan ?m (- 2) 0 4 = 2"
    using collapse_hides_from_offset [of ?m "- 2" 0 4, THEN conjunct1] two pos real adj c
    by simp
  have sc: "firstChildColspan singleChildEnv (- 3) 0 = 4" by code_simp
  have b: "firstElementColspan singleChildEnv (- 3) 0 4 = 1"
    using collapse_hides_from_offset [of singleChildEnv "- 3" 0 4, THEN conjunct2, THEN conjunct1] sc
    by simp
  have h: "HiddenObject (Some [2]) \<noteq> HiddenUndefined" by simp
  have f: "firstElementColspan cascadeEnv (- 2) 0 4 = 1" by code_simp
  have g: "getColspanOffset cascadeEnv 0 (theadRows cascadeEnv - 1) = 0" by code_simp
  have u: "[1..(3::int)] = [1, 2, 3]" by code_simp
  have t: "toggleCollapsedSection cascadeEnv (- 2) 0 \<lparr>colspanAttr = Some 4, rowIndex = 0\<rparr> Collapse
       (HiddenObject (Some [2])) = (HiddenObject (Some [2, 1, 3]), None)"
    using collapse_hides_from_offset [of cascadeEnv "- 2" 0 4 "HiddenObject (Some [2])" 0,
        THEN conjunct2, THEN conjunct2] h
    by (simp add: f g u currentlyHiddenColumns_def)
  from two c a sc b t show ?thesis by blast
qed

text \<open>A section whose only child spans its four columns: the child's colspan is 4, the
  offset is 1 and the collapse hides the real columns 1, 2, 3.\<close>

theorem single_child_offset_counterexample:
  "getChildHeaders singleChildEnv (- 3) 0 (Some 4) = [0] \<and>
   colspanAt singleChildEnv 1
     (realColumnIndexToNestedIndex singleChildEnv (- 2)
        (nestedColumnIndexToRealIndex singleChildEnv (- 3) 0)) = Some 4 \<and>
   firstElementColspan singleChildEnv (- 3) 0 4 = 1 \<and>
   hiddenColumns (fst (collapse singleChildEnv (- 3) 0 \<lparr>colspanAttr = Some 4, rowIndex = 0\<rparr> emptyState)) =
     HiddenObject (Some [1, 2, 3])"
  by code_simp

section \<open>The stored values\<close>

lemma neverFalse_mark:
  assumes "neverFalse cs"
  shows "neverFalse (fst (markSectionAs e st row col recursive cs))"
proof -
  have "markValue st \<noteq> JBool False" by (cases st) (simp_all add: markValue_def)
  with assms show ?thesis
    by (simp add: neverFalse_def mark_refines(1) cellAt_writeAll)
qed

lemma neverFalse_event:
  assumes "neverFalse (collapsedSections s)"
  shows "neverFalse (collapsedSections (fst (onBeforeOnCellMouseDown e ev s)))"
  using event_cases [of e ev s] assms
  by (auto simp: collapse_eq expand_eq markAndToggle_sections intro: neverFalse_mark)

lemma reachable_neverFalse:
  assumes "reachable e s"
  shows "neverFalse (collapsedSections s)"
  using assms
proof (induction rule: reachable.induct)
  case (initial hs)
  show ?case by (simp add: neverFalse_def cellAt_def)
next
  case (event s ev)
  from event.IH show ?case by (rule neverFalse_event)
qed

text \<open>
  C4 (amended). In every reachable state an entry of the store is absent, \<^verbatim>\<open>true\<close> or
  \<^verbatim>\<open>undefined\<close>, never \<^verbatim>\<open>false\<close>; and expanding a section does not remove its entry: it
  stores \<^verbatim>\<open>undefined\<close> at the key, which stays present.
\<close>

theorem reachable_entries:
  assumes "reachable e s"
  shows "cellAt (collapsedSections s) row col \<noteq> Some (JBool False) \<and>
         cellAt (collapsedSections (fst (expand e row col td s))) row col = Some JUndefined"
proof -
  have "cellAt (collapsedSections s) row col \<noteq> Some (JBool False)"
    using reachable_neverFalse [OF assms] by (simp add: neverFalse_def)
  moreover have "cellAt (collapsedSections (fst (expand e row col td s))) row col = Some JUndefined"
    using markSectionAs_writes_own [of e Expanded row col True "collapsedSections s"]
    by (simp add: expand_eq markAndToggle_sections markValue_def)
  ultimately show ?thesis by simp
qed

theorem reachable_entries_witness:
  "reachable cascadeEnv (fst (collapse cascadeEnv (- 2) 0 topCell emptyState)) \<and>
   cellAt (collapsedSections (fst (collapse cascadeEnv (- 2) 0 topCell emptyState))) (- 2) 0 \<noteq> Some (JBool False) \<and>
   cellAt (collapsedSections (fst (expand cascadeEnv (- 2) 0 topCell
      (fst (collapse cascadeEnv (- 2) 0 topCell emptyState))))) (- 2) 0 = Some JUndefined"
proof -
  have "reachable cascadeEnv emptyState"
    unfolding emptyState_def by (rule reachable.initial)
  then have r: "reachable cascadeEnv (fst (collapse cascadeEnv (- 2) 0 topCell emptyState))"
    unfolding collapse_def by (rule reachable.event)
  show ?thesis
    using r reachable_entries [OF r, of "- 2" 0 topCell] by simp
qed

text \<open>After a collapse and an expand of the top section of the cascade scenario, the store
  has an entry for the section, which is expanded.\<close>

theorem expand_keeps_entry_counterexample:
  "cellAt (collapsedSections (fst (expand cascadeEnv (- 2) 0 topCell
      (fst (collapse cascadeEnv (- 2) 0 topCell emptyState))))) (- 2) 0 = Some JUndefined \<and>
   \<not> isCollapsed (collapsedSections (fst (expand cascadeEnv (- 2) 0 topCell
      (fst (collapse cascadeEnv (- 2) 0 topCell emptyState))))) (- 2) 0"
  by code_simp

section \<open>The child header resolver\<close>

text \<open>
  C5. Under a level-0 cell over real columns 0..3 whose children are a merged cell over real
  columns 0..1 and single cells at real columns 2 and 3, getChildHeaders returns [0, 2]: the
  walk is shortened by the whole colspan of the merged child, and the child at real column
  3 (nested position 2, colspan 1) is never visited, although it is one of the three header
  cells below the level-0 cell.
\<close>

theorem getChildHeaders_misses_child:
  assumes "mergedFirstHeader e"
  shows "getChildHeaders e (- 2) 0 (Some 4) = [0, 2] \<and>
         nestedColumnIndexToRealIndex e (- 1) 2 = 3 \<and>
         colspanAt e 1 2 = Some 1"
  using assms
  by (simp add: mergedFirstHeader_def getChildHeaders_def childHeadersLoop.simps colspanAt_def js_index_def)

theorem getChildHeaders_misses_child_witness:
  "mergedFirstHeader (headerEnv [[4], [2, 1, 1]]) \<and>
   getChildHeaders (headerEnv [[4], [2, 1, 1]]) (- 2) 0 (Some 4) = [0, 2] \<and>
   nestedColumnIndexToRealIndex (headerEnv [[4], [2, 1, 1]]) (- 1) 2 = 3 \<and>
   colspanAt (headerEnv [[4], [2, 1, 1]]) 1 2 = Some 1"
proof -
  have h: "mergedFirstHeader (headerEnv [[4], [2, 1, 1]])" by code_simp
  from h getChildHeaders_misses_child [OF h] show ?thesis by blast
qed

section \<open>Activation without a dependency\<close>

text \<open>
  C6. Activated with nestedHeaders configured and no hiddenColumns setting, the plugin logs
  the warning but stays active: a header cell with colspan 2 still gets an indicator, and a
  click on that indicator marks the section and then throws a TypeError in
  toggleCollapsedSection: the plugin has not disabled itself.
\<close>

theorem activation_without_hiddenColumns:
  "console (activate \<lparr>collapsibleColumnsSetting = True, nestedHeadersSetting = Some [[2]],
                      hiddenColumnsSetting = HiddenUndefined\<rparr>) = [dependencyWarning] \<and>
   renderHeaderCell
     (activate \<lparr>collapsibleColumnsSetting = True, nestedHeadersSetting = Some [[2]],
                hiddenColumnsSetting = HiddenUndefined\<rparr>)
     (headerEnv [[2]]) 0 \<lparr>colspanAttr = Some 2, rowIndex = 0\<rparr> Map.empty = Some IndicatorExpanded \<and>
   snd (collapse (headerEnv [[2]]) (- 1) 0 \<lparr>colspanAttr = Some 2, rowIndex = 0\<rparr>
          \<lparr>collapsedSections = Map.empty, hiddenColumns = HiddenUndefined\<rparr>) = Some TypeError"
  by code_simp

section \<open>Exceptions of the recursive marking\<close>

text \<open>
  C7 (amended). When the colspan table has the level of the section that is marked, and the
  rendered THEAD has a row for every level of the colspan table, the recursive marking
  raises no exception, whatever the store, the state and the column are; and when the
  colspan table has no level below the section, the marking writes the section's own key
  and nothing else.
\<close>

theorem markSectionAs_no_exception:
  assumes "js_index (colspanSettings e) (columnHeaderLevelCount e + row) \<noteq> None"
    and "int (length (colspanSettings e)) \<le> theadRows e"
  shows "snd (markSectionAs e st row col True cs) = None \<and>
         (js_index (colspanSettings e) (columnHeaderLevelCount e + row + 1) = None \<longrightarrow>
          fst (markSectionAs e st row col True cs) = setSection row col (markValue st) cs)"
proof -
  have "snd (markSectionAs e st row col True cs) = None"
    using marked_no_error(1) [of True e row col] assms by (simp add: mark_refines(1))
  moreover have "fst (markSectionAs e st row col True cs) = setSection row col (markValue st) cs"
    if "js_index (colspanSettings e) (columnHeaderLevelCount e + row + 1) = None"
    using assms(1) markedChildren_no_level [OF that]
    by (auto simp: mark_refines(1) markedSections.simps)
  ultimately show ?thesis by blast
qed

theorem markSectionAs_no_exception_witness:
  "snd (markSectionAs cascadeEnv Collapsed (- 1) 2 True Map.empty) = None \<and>
   fst (markSectionAs cascadeEnv Collapsed (- 1) 2 True Map.empty) =
     setSection (- 1) 2 (markValue Collapsed) Map.empty"
proof -
  have a: "js_index (colspanSettings cascadeEnv) (columnHeaderLevelCount cascadeEnv + - 1) \<noteq> None"
    by code_simp
  have b: "int (length (colspanSettings cascadeEnv)) \<le> theadRows cascadeEnv"
    by code_simp
  have c: "js_index (colspanSettings cascadeEnv) (columnHeaderLevelCount cascadeEnv + - 1 + 1) = None"
    by code_simp
  show ?thesis
    using markSectionAs_no_exception [OF a b, of Collapsed 2 Map.empty] c by simp
qed

text \<open>With two header rows and colspan data for the top row only, marking a section of the
  bottom row reads a missing level and throws.\<close>

theorem markSectionAs_missing_level_counterexample:
  "snd (markSectionAs shortEnv Collapsed (- 1) 0 True Map.empty) = Some TypeError \<and>
   columnHeaderLevelCount shortEnv = 2 \<and> colspanSettings shortEnv = [[2, 2]]"
  by code_simp

section \<open>Applying a transition twice\<close>

lemma hideLoop_idem:
  "hideLoop i n base (hideLoop i n base h h) (hideLoop i n base h h) = hideLoop i n base h h"
proof -
  let ?new = "filter (\<lambda>c. c \<notin> set h) (map (\<lambda>k. base + k) [i..n - 1])"
  have "filter (\<lambda>c. c \<notin> set (h @ ?new)) (map (\<lambda>k. base + k) [i..n - 1]) = []"
    by (auto simp: filter_empty_conv)
  then show ?thesis by (simp add: hideLoop_closed)
qed

lemma showLoop_idem:
  assumes "distinct h"
  shows "showLoop i n base (showLoop i n base h) = showLoop i n base h"
proof -
  have "distinct (showLoop i n base h)"
    using assms by (simp add: showLoop_distinct)
  then show ?thesis
    using assms by (simp add: showLoop_distinct [of "showLoop i n base h"]) (simp add: showLoop_distinct)
qed

lemma toggle_idem:
  assumes "act = Expand \<longrightarrow> distinct (currentlyHiddenColumns hs)"
  shows "toggleCollapsedSection e row col td act (fst (toggleCollapsedSection e row col td act hs)) =
         toggleCollapsedSection e row col td act hs"
proof (cases "hs = HiddenUndefined")
  case True
  then show ?thesis by (simp add: toggleCollapsedSection_def)
next
  case False
  obtain ca ri where td: "td = \<lparr>colspanAttr = ca, rowIndex = ri\<rparr>" by (cases td) auto
  show ?thesis
  proof (cases ca)
    case None
    with False show ?thesis
      by (cases hs) (simp_all add: td toggleCollapsedSection_def currentlyHiddenColumns_def)
  next
    case (Some n)
    show ?thesis
    proof (cases act)
      case Collapse
      with False Some show ?thesis
        by (simp add: td toggle_collapse currentlyHiddenColumns_def hideLoop_idem)
    next
      case Expand
      with False Some assms show ?thesis
        by (simp add: td toggle_expand currentlyHiddenColumns_def showLoop_idem)
    qed
  qed
qed

lemma markAndToggle_idem:
  assumes "act = Expand \<longrightarrow> distinct (currentlyHiddenColumns (hiddenColumns s))"
  shows "markAndToggle e st act ev (fst (markAndToggle e st act ev s)) = markAndToggle e st act ev s"
proof -
  let ?r = "coords_row ev" and ?c = "coords_col ev"
  let ?ks = "fst (markedSections e ?r ?c True)"
  obtain cs hs where s: "s = \<lparr>collapsedSections = cs, hiddenColumns = hs\<rparr>" by (cases s) auto
  have m: "\<And>cs. markSectionAs e st ?r ?c True cs =
     (writeAll (markValue st) ?ks cs, snd (markedSections e ?r ?c True))"
    by (rule mark_refines(1))
  show ?thesis
  proof (cases "snd (markedSections e ?r ?c True)")
    case (Some err)
    then show ?thesis
      by (simp add: s markAndToggle_def m writeAll_idem)
  next
    case None
    obtain hs' err where t: "toggleCollapsedSection e ?r ?c (eventTD ev) act hs = (hs', err)"
      by (cases "toggleCollapsedSection e ?r ?c (eventTD ev) act hs")
    have "toggleCollapsedSection e ?r ?c (eventTD ev) act hs' = (hs', err)"
      using toggle_idem [of act hs e ?r ?c "eventTD ev"] assms t by (simp add: s)
    with None t show ?thesis
      by (simp add: s markAndToggle_def m writeAll_idem)
  qed
qed

text \<open>
  C8 (amended). Collapsing a section twice in a row gives the same store, the same
  hiddenColumns setting and the same error, if any, as collapsing it once. The same holds
  for expanding twice in a row when the list of hidden columns has no duplicates.
\<close>

theorem toggle_twice:
  "collapse e row col td (fst (collapse e row col td s)) = collapse e row col td s \<and>
   (distinct (currentlyHiddenColumns (hiddenColumns s)) \<longrightarrow>
    expand e row col td (fst (expand e row col td s)) = expand e row col td s)"
  by (simp add: collapse_eq expand_eq markAndToggle_idem)

theorem toggle_twice_witness:
  "collapse cascadeEnv (- 2) 0 topCell (fst (collapse cascadeEnv (- 2) 0 topCell emptyState)) =
     collapse cascadeEnv (- 2) 0 topCell emptyState \<and>
   distinct (currentlyHiddenColumns (hiddenColumns emptyState)) \<and>
   expand cascadeEnv (- 2) 0 topCell (fst (expand cascadeEnv (- 2) 0 topCell emptyState)) =
     expand cascadeEnv (- 2) 0 topCell emptyState"
proof -
  have d: "distinct (currentlyHiddenColumns (hiddenColumns emptyState))"
    by (simp add: emptyState_def currentlyHiddenColumns_def)
  show ?thesis
    using toggle_twice [of cascadeEnv "- 2" 0 topCell emptyState] d by simp
qed

text \<open>With column 2 listed twice as hidden, the first expand of the top section removes one
  occurrence and the second expand the other.\<close>

theorem expand_twice_counterexample:
  "hiddenColumns (fst (expand cascadeEnv (- 2) 0 topCell duplicateState)) = HiddenObject (Some [2]) \<and>
   hiddenColumns (fst (expand cascadeEnv (- 2) 0 topCell
      (fst (expand cascadeEnv (- 2) 0 topCell duplicateState)))) = HiddenObject (Some [])"
  by code_simp

section \<open>Which children the marking recurses into\<close>

lemma markChildren_fold:
  assumes "snd (markChildren e st row children cs) = None"
  shows "fst (markChildren e st row children cs) =
     fold (\<lambda>child cs'. fst (markSectionAs e st (row + 1) (realColumnIndexToNestedIndex e (row + 1) child) True cs'))
       (filter (\<lambda>child. spansMany e (columnHeaderLevelCount e + row + 1)
                  (realColumnIndexToNestedIndex e (row + 1) child)) children)
       cs"
  using assms
proof (induction children arbitrary: cs)
  case Nil
  show ?case by (simp add: markChildren.simps)
next
  case (Cons child rest)
  let ?p = "realColumnIndexToNestedIndex e (row + 1) child"
  show ?case
  proof (cases "spansMany e (columnHeaderLevelCount e + row + 1) ?p")
    case False
    with Cons show ?thesis by (simp add: markChildren.simps)
  next
    case True
    have th: "theadHasRow e (columnHeaderLevelCount e + row + 1)"
      using Cons.prems True by (auto simp: markChildren.simps split: if_splits)
    obtain cs' err where m: "markSectionAs e st (row + 1) ?p True cs = (cs', err)"
      by (cases "markSectionAs e st (row + 1) ?p True cs")
    have err: "err = None"
      using Cons.prems True th m by (cases err) (simp_all add: markChildren.simps)
    have step: "markChildren e st row (child # rest) cs = markChildren e st row rest cs'"
      using True th m err by (simp add: markChildren.simps)
    have "snd (markChildren e st row rest cs') = None"
      using Cons.prems step by simp
    from Cons.IH [OF this] step True m show ?thesis by simp
  qed
qed

lemma markedChildren_level_keys:
  assumes "snd (markedChildren e row children) = None"
  shows "((row + 1, p) \<in> set (fst (markedChildren e row children))) =
         (\<exists>child \<in> set children. p = realColumnIndexToNestedIndex e (row + 1) child \<and>
            spansMany e (columnHeaderLevelCount e + row + 1) p)"
  using assms
proof (induction children)
  case Nil
  show ?case by (simp add: markedChildren.simps)
next
  case (Cons child rest)
  let ?p = "realColumnIndexToNestedIndex e (row + 1) child"
  show ?case
  proof (cases "spansMany e (columnHeaderLevelCount e + row + 1) ?p")
    case False
    with Cons show ?thesis by (auto simp: markedChildren.simps)
  next
    case True
    have th: "theadHasRow e (columnHeaderLevelCount e + row + 1)"
      using Cons.prems True by (auto simp: markedChildren.simps split: if_splits)
    obtain ks1 where ks1: "fst (markedSections e (row + 1) ?p True) = (row + 1, ?p) # ks1"
        and deeper: "\<forall>k\<in>set ks1. row + 1 + 1 \<le> fst k"
      using markedSections_hd [of e "row + 1" ?p True] by blast
    obtain err where m: "markedSections e (row + 1) ?p True = ((row + 1, ?p) # ks1, err)"
      using ks1 by (cases "markedSections e (row + 1) ?p True") simp
    have err: "err = None"
      using Cons.prems True th m by (cases err) (simp_all add: markedChildren.simps)
    obtain ks' err' where r: "markedChildren e row rest = (ks', err')"
      by (cases "markedChildren e row rest")
    have step: "markedChildren e row (child # rest) = (((row + 1, ?p) # ks1) @ ks', err')"
      using True th m err r by (simp add: markedChildren.simps)
    have "err' = None" using Cons.prems step by simp
    then have ih: "((row + 1, p) \<in> set ks') =
         (\<exists>child \<in> set rest. p = realColumnIndexToNestedIndex e (row + 1) child \<and>
            spansMany e (columnHeaderLevelCount e + row + 1) p)"
      using Cons.IH r by simp
    have "(row + 1, p) \<notin> set ks1" using deeper by fastforce
    then show ?thesis
      using True by (auto simp: step ih)
  qed
qed

text \<open>
  C9. For both states, a recursive marking that raises no error writes the section's own
  key and then marks recursively, with the same state and in order, exactly the children
  returned by the child resolver beyond the first whose nested position spans more than one
  column at the child level. At the child level an entry is written exactly at the nested
  positions of those children; every other entry of that level, the first child's among
  them, is left as it was.
\<close>

theorem marks_later_spanning_children:
  assumes "snd (markSectionAs e st row col True cs) = None"
  shows "fst (markSectionAs e st row col True cs) =
           fold (\<lambda>child cs'. fst (markSectionAs e st (row + 1)
                                     (realColumnIndexToNestedIndex e (row + 1) child) True cs'))
             (filter (\<lambda>child. spansMany e (columnHeaderLevelCount e + row + 1)
                        (realColumnIndexToNestedIndex e (row + 1) child))
                (tl (getChildHeaders e row col (colspanAt e (columnHeaderLevelCount e + row) col))))
             (setSection row col (markValue st) cs) \<and>
         (\<forall>p. cellAt (fst (markSectionAs e st row col True cs)) (row + 1) p =
            (if \<exists>child \<in> set (tl (getChildHeaders e row col
                                      (colspanAt e (columnHeaderLevelCount e + row) col))).
                  p = realColumnIndexToNestedIndex e (row + 1) child \<and>
                  spansMany e (columnHeaderLevelCount e + row + 1) p
             then Some (markValue st)
             else cellAt cs (row + 1) p))"
proof -
  let ?children = "tl (getChildHeaders e row col (colspanAt e (columnHeaderLevelCount e + row) col))"
  obtain lv where lv: "js_index (colspanSettings e) (columnHeaderLevelCount e + row) = Some lv"
    using assms by (cases "js_index (colspanSettings e) (columnHeaderLevelCount e + row)")
      (simp_all add: markSectionAs.simps)
  have arg: "js_index lv col = colspanAt e (columnHeaderLevelCount e + row) col"
    by (simp add: colspanAt_def lv)
  have unfold: "markSectionAs e st row col True cs =
      markChildren e st row ?children (setSection row col (markValue st) cs)"
    by (simp add: markSectionAs.simps lv arg)
  have a: "fst (markSectionAs e st row col True cs) =
           fold (\<lambda>child cs'. fst (markSectionAs e st (row + 1)
                                     (realColumnIndexToNestedIndex e (row + 1) child) True cs'))
             (filter (\<lambda>child. spansMany e (columnHeaderLevelCount e + row + 1)
                        (realColumnIndexToNestedIndex e (row + 1) child)) ?children)
             (setSection row col (markValue st) cs)"
    using assms unfolding unfold by (rule markChildren_fold)
  have keys: "markedSections e row col True =
      ((row, col) # fst (markedChildren e row ?children), snd (markedChildren e row ?children))"
    by (simp add: markedSections.simps lv arg split: prod.splits)
  have noerr: "snd (markedChildren e row ?children) = None"
    using assms by (simp add: mark_refines(1) keys)
  have b: "cellAt (fst (markSectionAs e st row col True cs)) (row + 1) p =
            (if \<exists>child \<in> set ?children.
                  p = realColumnIndexToNestedIndex e (row + 1) child \<and>
                  spansMany e (columnHeaderLevelCount e + row + 1) p
             then Some (markValue st)
             else cellAt cs (row + 1) p)" for p
    using markedChildren_level_keys [OF noerr, of p]
    by (simp add: mark_refines(1) keys cellAt_writeAll cellAt_setSection)
  from a b show ?thesis by blast
qed

theorem marks_later_spanning_children_witness:
  "snd (markSectionAs cascadeEnv Collapsed (- 2) 0 True Map.empty) = None \<and>
   getChildHeaders cascadeEnv (- 2) 0 (colspanAt cascadeEnv (columnHeaderLevelCount cascadeEnv + - 2) 0) = [0, 1, 2] \<and>
   cellAt (fst (markSectionAs cascadeEnv Collapsed (- 2) 0 True Map.empty)) (- 1) 0 = None \<and>
   cellAt (fst (markSectionAs cascadeEnv Collapsed (- 2) 0 True Map.empty)) (- 1) 1 = None \<and>
   cellAt (fst (markSectionAs cascadeEnv Collapsed (- 2) 0 True Map.empty)) (- 1) 2 = Some (JBool True)"
proof -
  have ok: "snd (markSectionAs cascadeEnv Collapsed (- 2) 0 True Map.empty) = None"
    by code_simp
  have ch: "getChildHeaders cascadeEnv (- 2) 0 (colspanAt cascadeEnv (columnHeaderLevelCount cascadeEnv + - 2) 0) = [0, 1, 2]"
    by code_simp
  have n1: "realColumnIndexToNestedIndex cascadeEnv (- 2 + 1) 1 = 1" by code_simp
  have n2: "realColumnIndexToNestedIndex cascadeEnv (- 2 + 1) 2 = 2" by code_simp
  have s1: "\<not> spansMany cascadeEnv (columnHeaderLevelCount cascadeEnv + - 2 + 1) 1" by code_simp
  have s2: "spansMany cascadeEnv (columnHeaderLevelCount cascadeEnv + - 2 + 1) 2" by code_simp
  have row: "(- 2 + 1 :: int) = - 1" by simp
  note inst = marks_later_spanning_children [OF ok, THEN conjunct2, unfolded ch list.sel row]
  have c0: "cellAt (fst (markSectionAs cascadeEnv Collapsed (- 2) 0 True Map.empty)) (- 1) 0 = None"
    using inst [rule_format, of 0] n1 n2 s1 s2 by (simp add: cellAt_def)
  have c1: "cellAt (fst (markSectionAs cascadeEnv Collapsed (- 2) 0 True Map.empty)) (- 1) 1 = None"
    using inst [rule_format, of 1] n1 n2 s1 s2 by (simp add: cellAt_def)
  have c2: "cellAt (fst (markSectionAs cascadeEnv Collapsed (- 2) 0 True Map.empty)) (- 1) 2 = Some (JBool True)"
    using inst [rule_format, of 2] n1 n2 s1 s2 by (simp add: markValue_def)
  from ok ch c0 c1 c2 show ?thesis by blast
qed

section \<open>The indicator and the stored value\<close>

text \<open>
  C10. In every store, the indicator of a header cell shows 'collapsed' exactly when the
  entry stored for its row and column is strictly \<^verbatim>\<open>true\<close>. Marking a section as expanded
  stores \<^verbatim>\<open>undefined\<close> at its key (the key stays), and the indicator then shows 'expanded',
  as it does for a key that was never written.
\<close>

theorem indicator_collapsed_iff_true:
  "(generateIndicator e col th cs = IndicatorCollapsed) =
     (cellAt cs (rowIndex th - theadRows e) col = Some (JBool True)) \<and>
   cellAt (fst (markSectionAs e Expanded row col recursive cs)) row col = Some JUndefined \<and>
   generateIndicator e col th
     (fst (markSectionAs e Expanded (rowIndex th - theadRows e) col recursive cs)) = IndicatorExpanded \<and>
   generateIndicator e col th Map.empty = IndicatorExpanded"
proof -
  have a: "\<And>cs. (generateIndicator e col th cs = IndicatorCollapsed) =
     (cellAt cs (rowIndex th - theadRows e) col = Some (JBool True))"
    by (simp add: generateIndicator_def isCollapsed_cellAt)
  have b: "\<And>row. cellAt (fst (markSectionAs e Expanded row col recursive cs)) row col = Some JUndefined"
    using markSectionAs_writes_own [of e Expanded _ col recursive cs] by (simp add: markValue_def)
  have c: "generateIndicator e col th
     (fst (markSectionAs e Expanded (rowIndex th - theadRows e) col recursive cs)) = IndicatorExpanded"
    by (simp add: generateIndicator_def isCollapsed_cellAt b)
  have d: "generateIndicator e col th Map.empty = IndicatorExpanded"
    by (simp add: generateIndicator_def isCollapsed_def)
  show ?thesis
    using a [of cs] b [of row] c d by blast
qed

end
